theory Spec2Isabelle
  imports Main "HOL-Library.Word" "HOL-Library.Monad_Syntax"
begin

unbundle bit_operations_syntax

section \<open>Types and constants of link\_connection.h\<close>

text \<open>
  The header's integer types: \<open>u8\<close>, \<open>u16\<close> and \<open>u32\<close> are unsigned machine words;
  a C \<open>int\<close> is a 32-bit word read in two's complement (\<open>sint\<close>, \<open>\<le>s\<close>, \<open><s\<close>).

  Every operation that can touch memory outside an object, overflow a signed
  integer, or loop forever returns an \<open>option\<close>: \<open>None\<close> says that the C program
  has no defined result there.
\<close>

type_synonym u8 = "8 word"
type_synonym u16 = "16 word"
type_synonym u32 = "32 word"
type_synonym s32 = "32 word"

abbreviation (input) LINK_MAX_PLAYERS :: nat where "LINK_MAX_PLAYERS \<equiv> 4"
abbreviation (input) LINK_DISCONNECTED :: u16 where "LINK_DISCONNECTED \<equiv> 0xFFFF"
abbreviation (input) LINK_NO_DATA :: u16 where "LINK_NO_DATA \<equiv> 0x0"
abbreviation (input) LINK_REMOTE_TIMEOUT_OFFLINE :: s32 where "LINK_REMOTE_TIMEOUT_OFFLINE \<equiv> - 1"
abbreviation (input) LINK_BIT_SLAVE :: nat where "LINK_BIT_SLAVE \<equiv> 2"
abbreviation (input) LINK_BIT_READY :: nat where "LINK_BIT_READY \<equiv> 3"
abbreviation (input) LINK_BITS_PLAYER_ID :: nat where "LINK_BITS_PLAYER_ID \<equiv> 4"
abbreviation (input) LINK_BIT_ERROR :: nat where "LINK_BIT_ERROR \<equiv> 6"
abbreviation (input) LINK_BIT_START :: nat where "LINK_BIT_START \<equiv> 7"
abbreviation (input) LINK_BIT_MULTIPLAYER :: nat where "LINK_BIT_MULTIPLAYER \<equiv> 13"
abbreviation (input) LINK_BIT_IRQ :: nat where "LINK_BIT_IRQ \<equiv> 14"
abbreviation (input) LINK_BIT_GENERAL_PURPOSE_LOW :: nat where "LINK_BIT_GENERAL_PURPOSE_LOW \<equiv> 14"
abbreviation (input) LINK_BIT_GENERAL_PURPOSE_HIGH :: nat where "LINK_BIT_GENERAL_PURPOSE_HIGH \<equiv> 15"

definition LINK_SET_HIGH :: "u16 \<Rightarrow> nat \<Rightarrow> u16" where
  "LINK_SET_HIGH reg b = reg OR push_bit b 1"

definition LINK_SET_LOW :: "u16 \<Rightarrow> nat \<Rightarrow> u16" where
  "LINK_SET_LOW reg b = reg AND NOT (push_bit b 1)"

section \<open>The queue: a basic std::queue<u16> replacement\<close>

text \<open>
  \<open>struct U16Queue\<close>. The cursors \<open>i\<close> and \<open>j\<close> of the source are the fields
  \<open>qi\<close> and \<open>qj\<close>. The field \<open>buf\<close> is the block that \<open>malloc\<close> returned: its
  length is what was really allocated, and an access at or beyond it is
  outside the object.
\<close>

record U16Queue =
  buf :: "u16 list"
  cap :: u32
  len :: u32
  qi :: u32
  qj :: u32

text \<open>
  \<open>u16q_init\<close>: \<open>blk\<close> is the block \<open>malloc(cap * sizeof(u16))\<close> returned, with
  whatever contents it has (\<open>malloc\<close> does not initialise it; a failed
  allocation is the empty block).
\<close>

definition u16q_init :: "u32 \<Rightarrow> u16 list \<Rightarrow> U16Queue" where
  "u16q_init c blk = \<lparr>buf = blk, cap = c, len = 0, qi = 0, qj = 0\<rparr>"

definition u16q_empty :: "U16Queue \<Rightarrow> bool" where
  "u16q_empty q = (qi q = qj q)"

definition u16q_front :: "U16Queue \<Rightarrow> u16 option" where
  "u16q_front q =
     (if unat (qi q) < length (buf q) then Some (buf q ! unat (qi q)) else None)"

text \<open>
  \<open>u16q_pop\<close> reads \<open>buf[i]\<close> into a local, advances \<open>i\<close> (wrapping to 0 at
  \<open>cap\<close>) and decrements \<open>len\<close> (a \<open>u32\<close>: it wraps below 0).
\<close>

definition u16q_pop :: "U16Queue \<Rightarrow> U16Queue option" where
  "u16q_pop q =
     (if unat (qi q) < length (buf q)
      then let i' = qi q + 1;
               i'' = (if i' \<ge> cap q then 0 else i')
           in Some (q\<lparr>qi := i'', len := len q - 1\<rparr>)
      else None)"

definition u16q_push :: "U16Queue \<Rightarrow> u16 \<Rightarrow> U16Queue option" where
  "u16q_push q n =
     (if unat (qj q) < length (buf q)
      then let b' = (buf q)[unat (qj q) := n];
               j' = qj q + 1;
               j'' = (if j' \<ge> cap q then 0 else j')
           in Some (q\<lparr>buf := b', qj := j'', len := len q + 1\<rparr>)
      else None)"

definition LINK_QUEUE_POP :: "U16Queue \<Rightarrow> (u16 \<times> U16Queue) option" where
  "LINK_QUEUE_POP q =
     (if u16q_empty q then Some (LINK_NO_DATA, q)
      else do {
        v \<leftarrow> u16q_front q;
        q' \<leftarrow> u16q_pop q;
        Some (v, q')
      })"

text \<open>
  \<open>LINK_QUEUE_CLEAR\<close> is a \<open>while\<close> loop that pops until the cursors meet. It
  need not terminate for every queue value (a tail cursor at or beyond \<open>cap\<close>
  is never met), so it is a partial function: \<open>None\<close> is also "never returns".
\<close>

partial_function (option) LINK_QUEUE_CLEAR :: "U16Queue \<Rightarrow> U16Queue option" where
  "LINK_QUEUE_CLEAR q =
     (if u16q_empty q then Some q
      else do { (v, q') \<leftarrow> LINK_QUEUE_POP q; LINK_QUEUE_CLEAR q' })"

declare LINK_QUEUE_CLEAR.simps [code]

section \<open>The hardware transport\<close>

text \<open>
  The memory-mapped registers the header reads and writes (declared by libtonc,
  which is not part of this repository): the serial control word, the
  transmit word, the four per-slot receive words, the mode word \<open>REG_RCNT\<close>
  and the timers. A reaction sees one value of the registers, changed only by
  its own writes; between two reactions the hardware may change them in any
  way, so every reaction takes the registers as an argument.

  The three timer control constants of libtonc are taken as a parameter.
\<close>

record TMR_REC =
  start :: u16
  cnt :: u16

record hw =
  REG_SIOCNT :: u16
  REG_SIOMLT_SEND :: u16
  REG_SIOMULTI :: "nat \<Rightarrow> u16"
  REG_RCNT :: u16
  REG_TM :: "nat \<Rightarrow> TMR_REC"

record tonc =
  TM_ENABLE :: u16
  TM_IRQ :: u16
  TM_FREQ_1024 :: u16

definition LINK_BASE_FREQUENCY :: "tonc \<Rightarrow> u16" where
  "LINK_BASE_FREQUENCY K = TM_FREQ_1024 K"

section \<open>Link state and link connection\<close>

datatype BaudRate = BAUD_RATE_0 | BAUD_RATE_1 | BAUD_RATE_2 | BAUD_RATE_3

text \<open>The value of an enumerator, as stored into the 16-bit control register.\<close>

fun baud_value :: "BaudRate \<Rightarrow> u16" where
  "baud_value BAUD_RATE_0 = 0"
| "baud_value BAUD_RATE_1 = 1"
| "baud_value BAUD_RATE_2 = 2"
| "baud_value BAUD_RATE_3 = 3"

record LinkState =
  player_count :: u8
  current_player_id :: u8
  incoming_messages :: "U16Queue list"
  outgoing_messages :: U16Queue
  timeouts :: "s32 list"
  irq_flag :: bool
  irq_timeout :: u32
  is_locked :: bool

record LinkConnection =
  state :: LinkState
  baud_rate :: BaudRate
  timeout :: u32
  remote_timeout :: u32
  buffer_size :: u32
  interval :: u32
  send_timer_id :: u8
  is_enabled :: bool

text \<open>\<open>struct LinkConnectionSettings\<close>; its fields carry the prefix \<open>cfg_\<close> here.\<close>

record LinkConnectionSettings =
  cfg_baud_rate :: BaudRate
  cfg_timeout :: u32
  cfg_remote_timeout :: u32
  cfg_buffer_size :: u32
  cfg_interval :: u32
  cfg_send_timer_id :: u8

text \<open>
  A \<open>for (i = 0; i < LINK_MAX_PLAYERS; i++)\<close> loop runs its body at each index
  in turn; a body without a defined result ends the run.
\<close>

primrec for_each :: "nat list \<Rightarrow> (nat \<Rightarrow> 's \<Rightarrow> 's option) \<Rightarrow> 's \<Rightarrow> 's option" where
  "for_each [] body s = Some s"
| "for_each (n # ns) body s = do { s' \<leftarrow> body n s; for_each ns body s' }"

text \<open>
  \<open>linkstate_init\<close>: \<open>LinkState self = {}\<close> zeroes every field (so the timeout
  counters start at 0, not at the offline value); \<open>blks n\<close> is the block
  allocated for incoming queue \<open>n\<close>, and \<open>blks 4\<close> the one for the outgoing queue.
\<close>

definition linkstate_init :: "u32 \<Rightarrow> (nat \<Rightarrow> u16 list) \<Rightarrow> LinkState" where
  "linkstate_init bsize blks =
     \<lparr>player_count = 0, current_player_id = 0,
      incoming_messages = map (\<lambda>n. u16q_init bsize (blks n)) [0..<LINK_MAX_PLAYERS],
      outgoing_messages = u16q_init bsize (blks LINK_MAX_PLAYERS),
      timeouts = replicate LINK_MAX_PLAYERS 0,
      irq_flag = False, irq_timeout = 0, is_locked = False\<rparr>"

definition linkstate_is_connected :: "LinkState \<Rightarrow> bool" where
  "linkstate_is_connected self \<longleftrightarrow>
     player_count self > 1 \<and> current_player_id self < player_count self"

text \<open>
  An index into \<open>incoming_messages\<close> at or beyond \<open>LINK_MAX_PLAYERS\<close> is outside
  the array.
\<close>

definition linkstate_has_message :: "LinkState \<Rightarrow> u8 \<Rightarrow> (bool \<times> LinkState) option" where
  "linkstate_has_message self player_id =
     (if player_id \<ge> player_count self then Some (False, self)
      else if unat player_id < LINK_MAX_PLAYERS then
        let self1 = self\<lparr>is_locked := True\<rparr>;
            has_message = \<not> u16q_empty (incoming_messages self1 ! unat player_id)
        in Some (has_message, self1\<lparr>is_locked := False\<rparr>)
      else None)"

definition linkstate_read_message :: "LinkState \<Rightarrow> u8 \<Rightarrow> (u16 \<times> LinkState) option" where
  "linkstate_read_message self player_id =
     (if unat player_id < LINK_MAX_PLAYERS then
        let self1 = self\<lparr>is_locked := True\<rparr> in do {
          (message, q) \<leftarrow> LINK_QUEUE_POP (incoming_messages self1 ! unat player_id);
          Some (message,
            self1\<lparr>incoming_messages := (incoming_messages self1)[unat player_id := q],
                  is_locked := False\<rparr>)
        }
      else None)"

subsection \<open>Private API\<close>

definition isBitHigh :: "hw \<Rightarrow> nat \<Rightarrow> bool" where
  "isBitHigh h b \<longleftrightarrow> drop_bit b (REG_SIOCNT h) AND 1 \<noteq> 0"

definition setBitHigh :: "hw \<Rightarrow> nat \<Rightarrow> hw" where
  "setBitHigh h b = h\<lparr>REG_SIOCNT := LINK_SET_HIGH (REG_SIOCNT h) b\<rparr>"

definition setBitLow :: "hw \<Rightarrow> nat \<Rightarrow> hw" where
  "setBitLow h b = h\<lparr>REG_SIOCNT := LINK_SET_LOW (REG_SIOCNT h) b\<rparr>"

definition lc_is_ready :: "LinkConnection \<Rightarrow> hw \<Rightarrow> bool" where
  "lc_is_ready self h = isBitHigh h LINK_BIT_READY"

definition lc_has_error :: "LinkConnection \<Rightarrow> hw \<Rightarrow> bool" where
  "lc_has_error self h = isBitHigh h LINK_BIT_ERROR"

definition lc_is_master :: "LinkConnection \<Rightarrow> hw \<Rightarrow> bool" where
  "lc_is_master self h = (\<not> isBitHigh h LINK_BIT_SLAVE)"

definition lc_is_sending :: "LinkConnection \<Rightarrow> hw \<Rightarrow> bool" where
  "lc_is_sending self h = isBitHigh h LINK_BIT_START"

definition lc_did_timeout :: "LinkConnection \<Rightarrow> bool" where
  "lc_did_timeout self \<longleftrightarrow> irq_timeout (state self) \<ge> timeout self"

definition lc_reset_state :: "LinkConnection \<Rightarrow> LinkConnection option" where
  "lc_reset_state self = do {
     let st0 = (state self)\<lparr>player_count := 0, current_player_id := 0\<rparr>;
     st1 \<leftarrow> for_each [0..<LINK_MAX_PLAYERS]
       (\<lambda>n st. do {
          q \<leftarrow> LINK_QUEUE_CLEAR (incoming_messages st ! n);
          Some (st\<lparr>incoming_messages := (incoming_messages st)[n := q],
                   timeouts := (timeouts st)[n := LINK_REMOTE_TIMEOUT_OFFLINE]\<rparr>)
        }) st0;
     q \<leftarrow> LINK_QUEUE_CLEAR (outgoing_messages st1);
     Some (self\<lparr>state := st1\<lparr>outgoing_messages := q, irq_flag := False, irq_timeout := 0\<rparr>\<rparr>)
   }"

definition lc_transfer :: "LinkConnection \<Rightarrow> hw \<Rightarrow> u16 \<Rightarrow> hw" where
  "lc_transfer self h data =
     (let h1 = h\<lparr>REG_SIOMLT_SEND := data\<rparr>
      in if lc_is_master self h1 then setBitHigh h1 LINK_BIT_START else h1)"

definition lc_send_pending_data :: "LinkConnection \<Rightarrow> hw \<Rightarrow> (LinkConnection \<times> hw) option" where
  "lc_send_pending_data self h = do {
     (v, q) \<leftarrow> LINK_QUEUE_POP (outgoing_messages (state self));
     let self1 = self\<lparr>state := (state self)\<lparr>outgoing_messages := q\<rparr>\<rparr>;
     Some (self1, lc_transfer self1 h v)
   }"

text \<open>
  \<open>REG_TM\<close> has four timers; \<open>REG_TM[send_timer_id]\<close> with a larger id is an
  access outside them.
\<close>

definition lc_stop_timer :: "tonc \<Rightarrow> LinkConnection \<Rightarrow> hw \<Rightarrow> hw option" where
  "lc_stop_timer K self h =
     (let n = unat (send_timer_id self) in
      if n < 4
      then Some (h\<lparr>REG_TM := (REG_TM h)(n := (REG_TM h n)\<lparr>cnt := cnt (REG_TM h n) AND NOT (TM_ENABLE K)\<rparr>)\<rparr>)
      else None)"

text \<open>\<open>start = -(interval)\<close>: the negated \<open>u32\<close>, truncated to the 16-bit register.\<close>

definition lc_start_timer :: "tonc \<Rightarrow> LinkConnection \<Rightarrow> hw \<Rightarrow> hw option" where
  "lc_start_timer K self h =
     (let n = unat (send_timer_id self) in
      if n < 4
      then let h1 = h\<lparr>REG_TM := (REG_TM h)(n := (REG_TM h n)\<lparr>start := ucast (- interval self)\<rparr>)\<rparr>
           in Some (h1\<lparr>REG_TM := (REG_TM h1)(n := (REG_TM h1 n)
                \<lparr>cnt := TM_ENABLE K OR TM_IRQ K OR LINK_BASE_FREQUENCY K\<rparr>)\<rparr>)
      else None)"

definition lc_stop :: "tonc \<Rightarrow> LinkConnection \<Rightarrow> hw \<Rightarrow> hw option" where
  "lc_stop K self h = do {
     h1 \<leftarrow> lc_stop_timer K self h;
     let h2 = h1\<lparr>REG_RCNT := LINK_SET_LOW (REG_RCNT h1) LINK_BIT_GENERAL_PURPOSE_LOW\<rparr>;
     Some (h2\<lparr>REG_RCNT := LINK_SET_HIGH (REG_RCNT h2) LINK_BIT_GENERAL_PURPOSE_HIGH\<rparr>)
   }"

definition lc_start :: "tonc \<Rightarrow> LinkConnection \<Rightarrow> hw \<Rightarrow> hw option" where
  "lc_start K self h = do {
     h1 \<leftarrow> lc_start_timer K self h;
     let h2 = h1\<lparr>REG_RCNT := LINK_SET_LOW (REG_RCNT h1) LINK_BIT_GENERAL_PURPOSE_HIGH\<rparr>;
     let h3 = h2\<lparr>REG_SIOCNT := baud_value (baud_rate self)\<rparr>;
     let h4 = h3\<lparr>REG_SIOMLT_SEND := 0\<rparr>;
     Some (setBitHigh (setBitHigh h4 LINK_BIT_MULTIPLAYER) LINK_BIT_IRQ)
   }"

definition lc_reset :: "tonc \<Rightarrow> LinkConnection \<Rightarrow> hw \<Rightarrow> (LinkConnection \<times> hw) option" where
  "lc_reset K self h = do {
     self1 \<leftarrow> lc_reset_state self;
     h1 \<leftarrow> lc_stop K self1 h;
     h2 \<leftarrow> lc_start K self1 h1;
     Some (self1, h2)
   }"

definition lc_reset_if_needed ::
    "tonc \<Rightarrow> LinkConnection \<Rightarrow> hw \<Rightarrow> (bool \<times> LinkConnection \<times> hw) option" where
  "lc_reset_if_needed K self h =
     (if \<not> lc_is_ready self h \<or> lc_has_error self h
      then do { (self1, h1) \<leftarrow> lc_reset K self h; Some (True, self1, h1) }
      else Some (False, self, h))"

text \<open>
  \<open>lc_push\<close> is the only place that reads \<open>len\<close>, and nothing calls it. Its
  eviction branch calls \<open>LINK_QUEUE_POP(&q)\<close> with the address of the pointer
  parameter \<open>q\<close>, not with the queue: the pop works on memory that is not a
  \<open>U16Queue\<close>, so that branch has no defined result.
\<close>

definition lc_push :: "LinkConnection \<Rightarrow> U16Queue \<Rightarrow> u16 \<Rightarrow> U16Queue option" where
  "lc_push self q v =
     (if len q \<ge> buffer_size self then None else u16q_push q v)"

subsection \<open>Public API\<close>

text \<open>
  \<open>lc_destroy\<close> (with \<open>linkstate_destroy\<close> and \<open>u16q_destroy\<close>) stops the timer and
  frees the blocks; a destroyed connection is not used again, so it is left out.
\<close>

definition lc_init ::
    "tonc \<Rightarrow> LinkConnectionSettings \<Rightarrow> (nat \<Rightarrow> u16 list) \<Rightarrow> hw \<Rightarrow> (LinkConnection \<times> hw) option" where
  "lc_init K settings blks h = do {
     let self = \<lparr>state = linkstate_init (cfg_buffer_size settings) blks,
                 baud_rate = cfg_baud_rate settings,
                 timeout = cfg_timeout settings,
                 remote_timeout = cfg_remote_timeout settings,
                 buffer_size = cfg_buffer_size settings,
                 interval = cfg_interval settings,
                 send_timer_id = cfg_send_timer_id settings,
                 is_enabled = False\<rparr>;
     h1 \<leftarrow> lc_stop K self h;
     Some (self, h1)
   }"

definition lc_is_active :: "LinkConnection \<Rightarrow> bool" where
  "lc_is_active self = is_enabled self"

definition lc_activate :: "tonc \<Rightarrow> LinkConnection \<Rightarrow> hw \<Rightarrow> (LinkConnection \<times> hw) option" where
  "lc_activate K self h = do {
     (self1, h1) \<leftarrow> lc_reset K self h;
     Some (self1\<lparr>is_enabled := True\<rparr>, h1)
   }"

definition lc_deactivate :: "tonc \<Rightarrow> LinkConnection \<Rightarrow> hw \<Rightarrow> (LinkConnection \<times> hw) option" where
  "lc_deactivate K self h = do {
     let self1 = self\<lparr>is_enabled := False\<rparr>;
     self2 \<leftarrow> lc_reset_state self1;
     h1 \<leftarrow> lc_stop K self2 h;
     Some (self2, h1)
   }"

definition lc_send :: "LinkConnection \<Rightarrow> u16 \<Rightarrow> LinkConnection option" where
  "lc_send self data =
     (if data = LINK_DISCONNECTED \<or> data = LINK_NO_DATA then Some self
      else
        let self1 = self\<lparr>state := (state self)\<lparr>is_locked := True\<rparr>\<rparr> in do {
          q \<leftarrow> u16q_push (outgoing_messages (state self1)) data;
          let self2 = self1\<lparr>state := (state self1)\<lparr>outgoing_messages := q\<rparr>\<rparr>;
          Some (self2\<lparr>state := (state self2)\<lparr>is_locked := False\<rparr>\<rparr>)
        })"

definition lc_is_connected :: "LinkConnection \<Rightarrow> bool" where
  "lc_is_connected self = linkstate_is_connected (state self)"

definition lc_has_message :: "LinkConnection \<Rightarrow> u8 \<Rightarrow> (bool \<times> LinkConnection) option" where
  "lc_has_message self player_id = do {
     (r, st) \<leftarrow> linkstate_has_message (state self) player_id;
     Some (r, self\<lparr>state := st\<rparr>)
   }"

definition lc_read_message :: "LinkConnection \<Rightarrow> u8 \<Rightarrow> (u16 \<times> LinkConnection) option" where
  "lc_read_message self player_id = do {
     (r, st) \<leftarrow> linkstate_read_message (state self) player_id;
     Some (r, self\<lparr>state := st\<rparr>)
   }"

definition lc_on_vblank :: "LinkConnection \<Rightarrow> LinkConnection" where
  "lc_on_vblank self =
     (if \<not> is_enabled self \<or> is_locked (state self) then self
      else
        let self1 = (if \<not> irq_flag (state self)
                     then self\<lparr>state := (state self)\<lparr>irq_timeout := irq_timeout (state self) + 1\<rparr>\<rparr>
                     else self)
        in self1\<lparr>state := (state self1)\<lparr>irq_flag := False\<rparr>\<rparr>)"

definition lc_on_timer :: "tonc \<Rightarrow> LinkConnection \<Rightarrow> hw \<Rightarrow> (LinkConnection \<times> hw) option" where
  "lc_on_timer K self h =
     (if \<not> is_enabled self \<or> is_locked (state self) then Some (self, h)
      else if lc_did_timeout self then lc_reset K self h
      else if lc_is_master self h \<and> lc_is_ready self h \<and> \<not> lc_is_sending self h
        then lc_send_pending_data self h
      else Some (self, h))"

text \<open>
  The body of the slot loop of \<open>lc_on_serial\<close>, at slot \<open>n\<close>, on the link state
  and \<open>new_player_count\<close>. The timeout counters are C \<open>int\<close>s: they are compared
  as signed values, \<open>(int)remote_timeout\<close> reads the same 32 bits as a signed
  value, and incrementing \<open>INT_MAX\<close> has no defined result.
\<close>

definition on_serial_slot ::
    "LinkConnection \<Rightarrow> hw \<Rightarrow> nat \<Rightarrow> LinkState \<times> s32 \<Rightarrow> (LinkState \<times> s32) option" where
  "on_serial_slot self h n = (\<lambda>(st, new_player_count).
     let data = REG_SIOMULTI h n in
     if data \<noteq> LINK_DISCONNECTED then do {
       st1 \<leftarrow> (if data \<noteq> LINK_NO_DATA \<and> n \<noteq> unat (current_player_id st)
               then do {
                 q \<leftarrow> u16q_push (incoming_messages st ! n) data;
                 Some (st\<lparr>incoming_messages := (incoming_messages st)[n := q]\<rparr>)
               }
               else Some st);
       Some (st1\<lparr>timeouts := (timeouts st1)[n := 0]\<rparr>, new_player_count + 1)
     }
     else if LINK_REMOTE_TIMEOUT_OFFLINE <s timeouts st ! n then
       if timeouts st ! n = 0x7FFFFFFF then None
       else
         let st1 = st\<lparr>timeouts := (timeouts st)[n := timeouts st ! n + 1]\<rparr> in
         if remote_timeout self \<le>s timeouts st1 ! n then do {
           q \<leftarrow> LINK_QUEUE_CLEAR (incoming_messages st1 ! n);
           let st2 = st1\<lparr>incoming_messages := (incoming_messages st1)[n := q]\<rparr>;
           Some (st2\<lparr>timeouts := (timeouts st2)[n := LINK_REMOTE_TIMEOUT_OFFLINE]\<rparr>,
                 new_player_count)
         }
         else Some (st1, new_player_count + 1)
     else Some (st, new_player_count))"

definition lc_on_serial :: "tonc \<Rightarrow> LinkConnection \<Rightarrow> hw \<Rightarrow> (LinkConnection \<times> hw) option" where
  "lc_on_serial K self h =
     (if \<not> is_enabled self \<or> is_locked (state self) then Some (self, h)
      else do {
        (did_reset, self1, h1) \<leftarrow> lc_reset_if_needed K self h;
        if did_reset then Some (self1, h1)
        else do {
          let st0 = (state self1)\<lparr>irq_flag := True, irq_timeout := 0\<rparr>;
          (st1, new_player_count) \<leftarrow>
            for_each [0..<LINK_MAX_PLAYERS] (on_serial_slot self1 h1) (st0, 0);
          let st2 = st1\<lparr>player_count := ucast new_player_count\<rparr>;
          let st3 = st2\<lparr>current_player_id :=
                      ucast (drop_bit LINK_BITS_PLAYER_ID
                               (REG_SIOCNT h1 AND push_bit LINK_BITS_PLAYER_ID 3))\<rparr>;
          let self2 = self1\<lparr>state := st3\<rparr>;
          if \<not> lc_is_master self2 h1 then lc_send_pending_data self2 h1
          else Some (self2, h1)
        }
      })"

section \<open>Notions used to state the properties\<close>

subsection \<open>Well-formed queues and their contents\<close>

text \<open>
  A queue as the header builds it: the block has \<open>cap\<close> cells and both cursors
  are inside it (with \<open>cap = 0\<close> there is no cell, and the cursors stay at 0).
\<close>

definition wf_queue :: "U16Queue \<Rightarrow> bool" where
  "wf_queue q \<longleftrightarrow>
     length (buf q) = unat (cap q) \<and>
     (qi q < cap q \<and> qj q < cap q \<or> cap q = 0 \<and> qi q = 0 \<and> qj q = 0)"

text \<open>
  The cells of a ring from cursor \<open>a\<close> up to, not including, cursor \<open>b\<close>,
  wrapping at the end of the block.
\<close>

definition ring :: "nat \<Rightarrow> nat \<Rightarrow> 'a list \<Rightarrow> 'a list" where
  "ring a b xs = (if a \<le> b then take (b - a) (drop a xs) else drop a xs @ take b xs)"

text \<open>
  The values a queue holds, oldest first: what successive pops deliver (lemma
  \<open>LINK_QUEUE_POP_items\<close>).
\<close>

definition u16q_items :: "U16Queue \<Rightarrow> u16 list" where
  "u16q_items q = ring (unat (qi q)) (unat (qj q)) (buf q)"

definition sentinel_free :: "U16Queue \<Rightarrow> bool" where
  "sentinel_free q \<longleftrightarrow>
     LINK_NO_DATA \<notin> set (u16q_items q) \<and> LINK_DISCONNECTED \<notin> set (u16q_items q)"

text \<open>
  A connection as the header builds it: four incoming queues and four counters,
  every queue well formed, a timer the hardware has, and no counter at
  \<open>INT_MAX\<close> (a counter is 0, offline, or below \<open>(int)remote_timeout\<close>).
\<close>

definition wf_conn :: "LinkConnection \<Rightarrow> bool" where
  "wf_conn c \<longleftrightarrow>
     length (incoming_messages (state c)) = LINK_MAX_PLAYERS \<and>
     length (timeouts (state c)) = LINK_MAX_PLAYERS \<and>
     (\<forall>q \<in> set (incoming_messages (state c)). wf_queue q) \<and>
     wf_queue (outgoing_messages (state c)) \<and>
     (\<forall>t \<in> set (timeouts (state c)). t \<noteq> 0x7FFFFFFF) \<and>
     unat (send_timer_id c) < 4"

subsection \<open>Runs\<close>

text \<open>
  Consecutive exchange-complete reactions: each finds the registers as the
  hardware left them for that exchange.
\<close>

primrec exchanges :: "tonc \<Rightarrow> hw list \<Rightarrow> LinkConnection \<Rightarrow> LinkConnection option" where
  "exchanges K [] c = Some c"
| "exchanges K (h # hs) c = do { (c', h') \<leftarrow> lc_on_serial K c h; exchanges K hs c' }"

text \<open>Consecutive calls of \<open>lc_send\<close>.\<close>

primrec lc_send_all :: "LinkConnection \<Rightarrow> u16 list \<Rightarrow> LinkConnection option" where
  "lc_send_all c [] = Some c"
| "lc_send_all c (v # vs) = do { c' \<leftarrow> lc_send c v; lc_send_all c' vs }"

text \<open>
  Any later use of a queue: pushes and pops in any order. \<open>run_ops\<close> returns the
  values the pops deliver, in order, and the final queue.
\<close>

datatype queue_op = Push u16 | Pop

fun run_ops :: "U16Queue \<Rightarrow> queue_op list \<Rightarrow> (u16 list \<times> U16Queue) option" where
  "run_ops q [] = Some ([], q)"
| "run_ops q (Push v # ops) = do { q' \<leftarrow> u16q_push q v; run_ops q' ops }"
| "run_ops q (Pop # ops) = do {
     (v, q') \<leftarrow> LINK_QUEUE_POP q;
     (vs, q'') \<leftarrow> run_ops q' ops;
     Some (v # vs, q'')
   }"

subsection \<open>Reachable connections\<close>

text \<open>
  The connections a program can reach: \<open>lc_init\<close> with every allocation
  successful, then public calls and reactions in any order, each run to
  completion, with any register values in between.
\<close>

inductive reachable :: "tonc \<Rightarrow> LinkConnectionSettings \<Rightarrow> LinkConnection \<Rightarrow> bool"
  for K :: tonc and cfg :: LinkConnectionSettings where
  r_init: "\<lbrakk>lc_init K cfg blks h = Some (c, h');
            \<forall>n \<le> LINK_MAX_PLAYERS. length (blks n) = unat (cfg_buffer_size cfg)\<rbrakk>
           \<Longrightarrow> reachable K cfg c"
| r_activate: "\<lbrakk>reachable K cfg c; lc_activate K c h = Some (c', h')\<rbrakk> \<Longrightarrow> reachable K cfg c'"
| r_deactivate: "\<lbrakk>reachable K cfg c; lc_deactivate K c h = Some (c', h')\<rbrakk> \<Longrightarrow> reachable K cfg c'"
| r_send: "\<lbrakk>reachable K cfg c; lc_send c v = Some c'\<rbrakk> \<Longrightarrow> reachable K cfg c'"
| r_has_message: "\<lbrakk>reachable K cfg c; lc_has_message c p = Some (b, c')\<rbrakk> \<Longrightarrow> reachable K cfg c'"
| r_read_message: "\<lbrakk>reachable K cfg c; lc_read_message c p = Some (v, c')\<rbrakk> \<Longrightarrow> reachable K cfg c'"
| r_vblank: "reachable K cfg c \<Longrightarrow> reachable K cfg (lc_on_vblank c)"
| r_timer: "\<lbrakk>reachable K cfg c; lc_on_timer K c h = Some (c', h')\<rbrakk> \<Longrightarrow> reachable K cfg c'"
| r_serial: "\<lbrakk>reachable K cfg c; lc_on_serial K c h = Some (c', h')\<rbrakk> \<Longrightarrow> reachable K cfg c'"

subsection \<open>A concrete program\<close>

text \<open>
  The settings of the header's usage example with queues of capacity \<open>bs\<close>,
  libtonc's timer constants, registers that read zero, and blocks of \<open>bs\<close>
  cells that happen to hold 7.
\<close>

definition ex_K :: tonc where
  "ex_K = \<lparr>TM_ENABLE = 0x80, TM_IRQ = 0x40, TM_FREQ_1024 = 3\<rparr>"

definition ex_settings :: "u32 \<Rightarrow> LinkConnectionSettings" where
  "ex_settings bs =
     \<lparr>cfg_baud_rate = BAUD_RATE_1, cfg_timeout = 3, cfg_remote_timeout = 5,
      cfg_buffer_size = bs, cfg_interval = 50, cfg_send_timer_id = 3\<rparr>"

definition ex_hw :: hw where
  "ex_hw = \<lparr>REG_SIOCNT = 0, REG_SIOMLT_SEND = 0, REG_SIOMULTI = (\<lambda>n. 0),
            REG_RCNT = 0, REG_TM = (\<lambda>n. \<lparr>start = 0, cnt = 0\<rparr>)\<rparr>"

text \<open>
  The registers at a finished exchange: ready, no error, the given role bits
  on top, and the four received words.
\<close>

definition ex_exchange :: "u16 \<Rightarrow> u16 list \<Rightarrow> hw" where
  "ex_exchange role ws =
     ex_hw\<lparr>REG_SIOCNT := push_bit LINK_BIT_READY 1 OR role,
           REG_SIOMULTI := (\<lambda>n. if n < length ws then ws ! n else LINK_DISCONNECTED)\<rparr>"

text \<open>The connection after \<open>lc_init\<close> and \<open>lc_activate\<close> (lemma \<open>ex_conn_activated\<close>).\<close>

definition ex_queue :: "u32 \<Rightarrow> U16Queue" where
  "ex_queue bs = \<lparr>buf = replicate (unat bs) 7, cap = bs, len = 0, qi = 0, qj = 0\<rparr>"

definition ex_conn :: "u32 \<Rightarrow> LinkConnection" where
  "ex_conn bs =
     \<lparr>state = \<lparr>player_count = 0, current_player_id = 0,
               incoming_messages = replicate LINK_MAX_PLAYERS (ex_queue bs),
               outgoing_messages = ex_queue bs,
               timeouts = replicate LINK_MAX_PLAYERS LINK_REMOTE_TIMEOUT_OFFLINE,
               irq_flag = False, irq_timeout = 0, is_locked = False\<rparr>,
      baud_rate = BAUD_RATE_1, timeout = 3, remote_timeout = 5, buffer_size = bs,
      interval = 50, send_timer_id = 3, is_enabled = True\<rparr>"

text \<open>
  A connection in the middle of a session: two players, a value waiting in an
  incoming queue and one in the outgoing queue, and a silence counter that has
  reached the timeout.
\<close>

definition ex_busy :: LinkConnection where
  "ex_busy = (ex_conn 2)\<lparr>state := (state (ex_conn 2))
     \<lparr>player_count := 2, current_player_id := 1,
      incoming_messages := [\<lparr>buf = [0x11, 7], cap = 2, len = 1, qi = 0, qj = 1\<rparr>,
                            ex_queue 2, ex_queue 2, ex_queue 2],
      outgoing_messages := \<lparr>buf = [5, 6], cap = 2, len = 1, qi = 1, qj = 0\<rparr>,
      timeouts := [0, 0, LINK_REMOTE_TIMEOUT_OFFLINE, LINK_REMOTE_TIMEOUT_OFFLINE],
      irq_timeout := 3\<rparr>\<rparr>"

text \<open>The registers of a master that is ready, with no error and no transfer in flight.\<close>

definition ex_master_ready :: hw where
  "ex_master_ready = ex_hw\<lparr>REG_SIOCNT := push_bit LINK_BIT_READY 1\<rparr>"

text \<open>
  The connection after one exchange in which slots 0 and 2 sent a value and
  slot 1 was absent (lemma \<open>ex_serial_gap\<close>).
\<close>

definition ex_gap :: LinkConnection where
  "ex_gap = (ex_conn 2)\<lparr>state := (state (ex_conn 2))
     \<lparr>player_count := 2,
      incoming_messages := [ex_queue 2, ex_queue 2,
                            \<lparr>buf = [0x33, 7], cap = 2, len = 1, qi = 0, qj = 1\<rparr>, ex_queue 2],
      timeouts := [0, LINK_REMOTE_TIMEOUT_OFFLINE, 0, LINK_REMOTE_TIMEOUT_OFFLINE],
      irq_flag := True\<rparr>\<rparr>"

text \<open>
  The connection after one exchange in which slots 0 and 1 sent a value (lemma
  \<open>ex_pair_reached\<close>).
\<close>

definition ex_pair :: LinkConnection where
  "ex_pair = (ex_conn 2)\<lparr>state := (state (ex_conn 2))
     \<lparr>player_count := 2,
      incoming_messages := [ex_queue 2, \<lparr>buf = [0x22, 7], cap = 2, len = 1, qi = 0, qj = 1\<rparr>,
                            ex_queue 2, ex_queue 2],
      timeouts := [0, 0, LINK_REMOTE_TIMEOUT_OFFLINE, LINK_REMOTE_TIMEOUT_OFFLINE],
      irq_flag := True\<rparr>\<rparr>"

subsection \<open>Auxiliary notions of the proofs\<close>

text \<open>The cursor after \<open>x\<close> in a block of \<open>c\<close> cells.\<close>

definition nxt :: "nat \<Rightarrow> nat \<Rightarrow> nat" where
  "nxt c x = (if Suc x = c then 0 else Suc x)"

text \<open>What \<open>LINK_QUEUE_CLEAR\<close> leaves of a well-formed queue (lemma \<open>LINK_QUEUE_CLEAR_cleared\<close>).\<close>

definition cleared :: "U16Queue \<Rightarrow> U16Queue" where
  "cleared q = q\<lparr>qi := qj q, len := len q - of_nat (length (u16q_items q))\<rparr>"

text \<open>
  What every reachable connection satisfies: it is well formed, no queue holds
  a reserved value, every queue has the configured capacity, and the
  configuration is the one given to \<open>lc_init\<close>.
\<close>

definition conn_inv :: "LinkConnectionSettings \<Rightarrow> LinkConnection \<Rightarrow> bool" where
  "conn_inv cfg c \<longleftrightarrow>
     wf_conn c \<and>
     (\<forall>q \<in> set (incoming_messages (state c)). sentinel_free q \<and> cap q = buffer_size c) \<and>
     sentinel_free (outgoing_messages (state c)) \<and>
     cap (outgoing_messages (state c)) = buffer_size c \<and>
     timeout c = cfg_timeout cfg \<and>
     remote_timeout c = cfg_remote_timeout cfg \<and>
     buffer_size c = cfg_buffer_size cfg"

text \<open>The invariant of the link state that the slot loops maintain.\<close>

definition slots_ok :: "u32 \<Rightarrow> LinkState \<Rightarrow> bool" where
  "slots_ok B st \<longleftrightarrow>
     length (incoming_messages st) = LINK_MAX_PLAYERS \<and>
     length (timeouts st) = LINK_MAX_PLAYERS \<and>
     (\<forall>q \<in> set (incoming_messages st). wf_queue q \<and> sentinel_free q \<and> cap q = B) \<and>
     (\<forall>t \<in> set (timeouts st). t \<noteq> 0x7FFFFFFF)"

section \<open>Properties of the queue\<close>

subsection \<open>Cursors\<close>

lemma unat_succ_below:
  fixes x c :: u32
  assumes "x < c"
  shows "unat (x + 1) = Suc (unat x)"
proof -
  have "x + 1 \<noteq> 0"
  proof
    assume "x + 1 = 0"
    then have "x = - 1" by (rule max_word_wrap)
    with assms show False by simp
  qed
  then show ?thesis using unatSuc[of x] by (simp add: add.commute)
qed

lemma advance_unat:
  fixes x c :: u32
  assumes "x < c"
  shows "unat (if c \<le> x + 1 then 0 else x + 1) = nxt (unat c) (unat x)"
  using assms unat_succ_below[OF assms]
  by (auto simp: nxt_def word_le_nat_alt word_less_nat_alt)

lemma advance_less:
  fixes x c :: u32
  assumes "x < c"
  shows "(if c \<le> x + 1 then 0 else x + 1) < c"
  using assms unat_succ_below[OF assms]
  by (auto simp: word_le_nat_alt word_less_nat_alt not_le)

subsection \<open>Rings\<close>

lemma ring_push:
  assumes "a < length xs" "b < length xs" "nxt (length xs) b \<noteq> a"
  shows "ring a (nxt (length xs) b) (xs[b := n]) = ring a b xs @ [n]"
proof (cases "a \<le> b")
  case True
  show ?thesis
  proof (cases "Suc b = length xs")
    case wrap: True
    with assms have "0 < a" by (simp add: nxt_def)
    with True wrap assms show ?thesis
      by (simp add: ring_def nxt_def drop_update_swap upd_conv_take_nth_drop) (simp add: drop_take)
  next
    case False
    with True assms show ?thesis
      by (simp add: ring_def nxt_def drop_update_swap Suc_diff_le take_Suc_conv_app_nth)
  qed
next
  case False
  with assms have "Suc b < a" "Suc b \<noteq> length xs" by (auto simp: nxt_def)
  with False assms show ?thesis
    by (simp add: ring_def nxt_def take_Suc_conv_app_nth)
qed

lemma ring_same: "ring a a xs = []"
  by (simp add: ring_def)

lemma ring_pop:
  assumes "a < length xs" "b < length xs" "a \<noteq> b"
  shows "ring a b xs = xs ! a # ring (nxt (length xs) a) b xs"
proof (cases "a \<le> b")
  case True
  with assms have ab: "a < b" by simp
  then obtain d where d: "b - a = Suc d" "b - Suc a = d" by (cases "b - a") auto
  have "drop a xs = xs ! a # drop (Suc a) xs"
    using assms(1) by (simp add: Cons_nth_drop_Suc)
  then have "take (b - a) (drop a xs) = xs ! a # take (b - Suc a) (drop (Suc a) xs)"
    by (simp add: d)
  moreover have "nxt (length xs) a = Suc a" using ab assms by (simp add: nxt_def)
  ultimately show ?thesis using ab by (simp add: ring_def)
next
  case False
  have dr: "drop a xs = xs ! a # drop (Suc a) xs"
    using assms(1) by (simp add: Cons_nth_drop_Suc)
  show ?thesis
  proof (cases "Suc a = length xs")
    case True
    with False dr show ?thesis by (simp add: ring_def nxt_def)
  next
    case ne: False
    with False dr show ?thesis by (simp add: ring_def nxt_def)
  qed
qed

lemma ring_Nil_iff:
  assumes "a < length xs" "b < length xs"
  shows "ring a b xs = [] \<longleftrightarrow> a = b"
  using assms by (auto simp: ring_def)

subsection \<open>Queue operations on well-formed queues\<close>

lemma wf_queue_cases:
  assumes "wf_queue q"
  obtains (cells) "length (buf q) = unat (cap q)" "qi q < cap q" "qj q < cap q"
  | (nocell) "buf q = []" "cap q = 0" "qi q = 0" "qj q = 0"
  using assms by (auto simp: wf_queue_def)

lemma u16q_empty_items:
  assumes "wf_queue q"
  shows "u16q_empty q \<longleftrightarrow> u16q_items q = []"
  using assms
proof (cases rule: wf_queue_cases)
  case cells
  then have "unat (qi q) < length (buf q)" "unat (qj q) < length (buf q)"
    by (simp_all add: word_less_nat_alt)
  then show ?thesis
    by (simp add: u16q_items_def u16q_empty_def ring_Nil_iff word_unat_eq_iff)
next
  case nocell
  then show ?thesis by (simp add: u16q_items_def u16q_empty_def ring_def)
qed

lemma u16q_push_None:
  assumes "wf_queue q" "cap q = 0"
  shows "u16q_push q n = None"
  using assms by (auto simp: wf_queue_def u16q_push_def)

lemma u16q_push_Some:
  assumes "wf_queue q" "cap q \<noteq> 0"
  shows "\<exists>q'. u16q_push q n = Some q'"
  using assms by (auto simp: wf_queue_def u16q_push_def Let_def word_less_nat_alt)

lemma u16q_push_props:
  assumes "wf_queue q" "u16q_push q n = Some q'"
  shows "wf_queue q'" "cap q' = cap q" "qi q' = qi q" "len q' = len q + 1"
    "unat (qj q') = nxt (unat (cap q)) (unat (qj q))"
    "u16q_items q' = (if qj q' = qi q then [] else u16q_items q @ [n])"
proof -
  from assms have nz: "cap q \<noteq> 0" using u16q_push_None by force
  with assms(1) have lb: "length (buf q) = unat (cap q)" and lt: "qi q < cap q" "qj q < cap q"
    by (auto simp: wf_queue_def)
  from lt lb have ltn: "unat (qi q) < length (buf q)" "unat (qj q) < length (buf q)"
    by (simp_all add: word_less_nat_alt)
  from assms(2) ltn have q': "q' = q\<lparr>buf := (buf q)[unat (qj q) := n],
      qj := (if cap q \<le> qj q + 1 then 0 else qj q + 1), len := len q + 1\<rparr>"
    by (simp add: u16q_push_def Let_def)
  show "cap q' = cap q" "qi q' = qi q" "len q' = len q + 1" by (simp_all add: q')
  show j: "unat (qj q') = nxt (unat (cap q)) (unat (qj q))"
    using advance_unat[OF lt(2)] by (simp add: q')
  show "wf_queue q'"
    using lb lt advance_less[OF lt(2)] by (simp add: q' wf_queue_def)
  show "u16q_items q' = (if qj q' = qi q then [] else u16q_items q @ [n])"
  proof (cases "qj q' = qi q")
    case True
    then show ?thesis by (simp add: u16q_items_def q' ring_same)
  next
    case False
    then have "nxt (length (buf q)) (unat (qj q)) \<noteq> unat (qi q)"
      using j lb by (simp add: word_unat_eq_iff)
    from ring_push[OF ltn this, of n] False show ?thesis
      using j lb by (simp add: u16q_items_def q')
  qed
qed

lemma LINK_QUEUE_POP_empty:
  assumes "u16q_empty q"
  shows "LINK_QUEUE_POP q = Some (LINK_NO_DATA, q)"
  using assms by (simp add: LINK_QUEUE_POP_def)

lemma LINK_QUEUE_POP_items:
  assumes "wf_queue q"
  shows "\<exists>q'. LINK_QUEUE_POP q = Some (case u16q_items q of [] \<Rightarrow> LINK_NO_DATA | v # vs \<Rightarrow> v, q') \<and>
           wf_queue q' \<and> u16q_items q' = tl (u16q_items q) \<and>
           cap q' = cap q \<and> qj q' = qj q \<and> buf q' = buf q \<and>
           (u16q_empty q \<longrightarrow> q' = q)"
proof (cases "u16q_empty q")
  case True
  with assms u16q_empty_items[OF assms] show ?thesis
    by (simp add: LINK_QUEUE_POP_def)
next
  case False
  with assms have lb: "length (buf q) = unat (cap q)" and lt: "qi q < cap q" "qj q < cap q"
    by (auto simp: wf_queue_def u16q_empty_def)
  from lt lb have ltn: "unat (qi q) < length (buf q)" "unat (qj q) < length (buf q)"
    by (simp_all add: word_less_nat_alt)
  from False have ne: "unat (qi q) \<noteq> unat (qj q)"
    by (simp add: u16q_empty_def word_unat_eq_iff)
  let ?q' = "q\<lparr>qi := (if cap q \<le> qi q + 1 then 0 else qi q + 1), len := len q - 1\<rparr>"
  have pop: "LINK_QUEUE_POP q = Some (buf q ! unat (qi q), ?q')"
    using False ltn by (simp add: LINK_QUEUE_POP_def u16q_front_def u16q_pop_def Let_def)
  have items: "u16q_items q = buf q ! unat (qi q) # u16q_items ?q'"
    using ring_pop[OF ltn ne] advance_unat[OF lt(1)] lb by (simp add: u16q_items_def)
  have "wf_queue ?q'"
    using lb lt advance_less[OF lt(1)] by (simp add: wf_queue_def)
  with pop items False show ?thesis by simp
qed

lemma LINK_QUEUE_CLEAR_wf:
  assumes "wf_queue q"
  shows "\<exists>q'. LINK_QUEUE_CLEAR q = Some q' \<and> wf_queue q' \<and> u16q_empty q' \<and>
           u16q_items q' = [] \<and> cap q' = cap q \<and> buf q' = buf q \<and>
           qi q' = qj q \<and> qj q' = qj q \<and>
           len q' = len q - of_nat (length (u16q_items q))"
  using assms
proof (induction "length (u16q_items q)" arbitrary: q)
  case 0
  then have "u16q_empty q" by (simp add: u16q_empty_items)
  with 0 show ?case
    by (subst LINK_QUEUE_CLEAR.simps) (simp add: u16q_empty_items u16q_empty_def)
next
  case (Suc k)
  then have ne: "\<not> u16q_empty q" by (auto simp: u16q_empty_items)
  from LINK_QUEUE_POP_items[OF Suc.prems] obtain v q1 where
    pop: "LINK_QUEUE_POP q = Some (v, q1)" and wf1: "wf_queue q1"
    and it1: "u16q_items q1 = tl (u16q_items q)"
    and same: "cap q1 = cap q" "qj q1 = qj q" "buf q1 = buf q"
    by blast
  have len1: "len q1 = len q - 1"
    using pop ne by (auto simp: LINK_QUEUE_POP_def u16q_pop_def Let_def split: if_splits bind_splits)
  from Suc.hyps(2) it1 have k: "k = length (u16q_items q1)" by simp
  from Suc.hyps(1)[OF k wf1] obtain q' where
    cl: "LINK_QUEUE_CLEAR q1 = Some q'" and r: "wf_queue q'" "u16q_empty q'" "u16q_items q' = []"
      "cap q' = cap q1" "buf q' = buf q1" "qi q' = qj q1" "qj q' = qj q1"
      "len q' = len q1 - of_nat (length (u16q_items q1))"
    by blast
  have "LINK_QUEUE_CLEAR q = Some q'"
    using ne pop cl by (subst LINK_QUEUE_CLEAR.simps) simp
  moreover have "len q' = len q - of_nat (length (u16q_items q))"
  proof -
    have "length (u16q_items q) = Suc (length (u16q_items q1))"
      using Suc.hyps(2) k by simp
    then show ?thesis using r(8) len1 by simp
  qed
  ultimately show ?case using r same by simp
qed

lemma LINK_QUEUE_CLEAR_cleared:
  assumes "wf_queue q"
  shows "LINK_QUEUE_CLEAR q = Some (cleared q)"
proof -
  from LINK_QUEUE_CLEAR_wf[OF assms] obtain q' where
    "LINK_QUEUE_CLEAR q = Some q'" "cap q' = cap q" "buf q' = buf q" "qi q' = qj q" "qj q' = qj q"
    "len q' = len q - of_nat (length (u16q_items q))" by blast
  then show ?thesis by (simp add: cleared_def)
qed

lemma cleared_props:
  assumes "wf_queue q"
  shows "wf_queue (cleared q)" "u16q_empty (cleared q)" "u16q_items (cleared q) = []"
    "cap (cleared q) = cap q"
  using LINK_QUEUE_CLEAR_wf[OF assms] LINK_QUEUE_CLEAR_cleared[OF assms] by auto

lemma LINK_QUEUE_POP_cursor:
  assumes "wf_queue q" "LINK_QUEUE_POP q = Some (v, q')"
  shows "unat (qi q') = (if u16q_empty q then unat (qi q) else nxt (unat (cap q)) (unat (qi q)))"
proof (cases "u16q_empty q")
  case True
  with assms show ?thesis by (simp add: LINK_QUEUE_POP_def)
next
  case False
  with assms have lt: "qi q < cap q" by (auto simp: wf_queue_def u16q_empty_def)
  from False assms(2) have "qi q' = (if cap q \<le> qi q + 1 then 0 else qi q + 1)"
    by (auto simp: LINK_QUEUE_POP_def u16q_pop_def Let_def split: bind_splits if_splits)
  with advance_unat[OF lt] False show ?thesis by simp
qed

subsection \<open>Runs of pushes and pops\<close>

lemma nxt_mod: "x < c \<Longrightarrow> nxt c x = Suc x mod c"
  by (auto simp: nxt_def)

lemma pushes_cursor:
  assumes "wf_queue q" "cap q \<noteq> 0"
  shows "\<exists>q'. run_ops q (map Push vs) = Some ([], q') \<and> wf_queue q' \<and> cap q' = cap q \<and>
           qi q' = qi q \<and> unat (qj q') = (unat (qj q) + length vs) mod unat (cap q) \<and>
           len q' = len q + of_nat (length vs)"
  using assms
proof (induction vs arbitrary: q)
  case Nil
  then have "qj q < cap q" by (auto simp: wf_queue_def)
  then show ?case using Nil by (simp add: word_less_nat_alt)
next
  case (Cons v vs)
  from u16q_push_Some[OF Cons.prems] obtain q1 where p: "u16q_push q v = Some q1" by blast
  note pp = u16q_push_props[OF Cons.prems(1) p]
  from Cons.prems have jl: "unat (qj q) < unat (cap q)" by (auto simp: wf_queue_def word_less_nat_alt)
  from Cons.IH[OF pp(1)] pp(2) Cons.prems(2) obtain q' where
    r: "run_ops q1 (map Push vs) = Some ([], q')" "wf_queue q'" "cap q' = cap q1" "qi q' = qi q1"
      "unat (qj q') = (unat (qj q1) + length vs) mod unat (cap q1)"
      "len q' = len q1 + of_nat (length vs)"
    by auto
  have "unat (qj q') = (unat (qj q) + length (v # vs)) mod unat (cap q)"
    using r(5) pp(2,5) nxt_mod[OF jl] by (simp add: mod_simps)
  moreover have "len q' = len q + of_nat (length (v # vs))"
    using r(6) pp(4) by simp
  ultimately show ?case using p r pp by simp
qed

text \<open>
  What later pops deliver depends only on the capacity, the cursors and the
  values between them, not on \<open>len\<close> or on the cells outside.
\<close>

lemma run_ops_same_view:
  assumes "wf_queue q" "wf_queue r" "cap q = cap r" "qi q = qi r" "qj q = qj r"
    "u16q_items q = u16q_items r"
  shows "map_option fst (run_ops q ops) = map_option fst (run_ops r ops)"
  using assms
proof (induction ops arbitrary: q r)
  case Nil
  then show ?case by simp
next
  case (Cons op ops)
  show ?case
  proof (cases op)
    case (Push v)
    show ?thesis
    proof (cases "cap q = 0")
      case True
      with Cons.prems u16q_push_None[of q v] u16q_push_None[of r v] Push show ?thesis by simp
    next
      case False
      with Cons.prems u16q_push_Some[of q v] u16q_push_Some[of r v] obtain q1 r1 where
        p: "u16q_push q v = Some q1" "u16q_push r v = Some r1" by auto
      note pq = u16q_push_props[OF Cons.prems(1) p(1)]
      note pr = u16q_push_props[OF Cons.prems(2) p(2)]
      have j: "qj q1 = qj r1" using pq(5) pr(5) Cons.prems by (simp add: word_unat_eq_iff)
      have "map_option fst (run_ops q1 ops) = map_option fst (run_ops r1 ops)"
        using pq pr j Cons.prems by (intro Cons.IH) simp_all
      with p Push show ?thesis by simp
    qed
  next
    case Pop
    from LINK_QUEUE_POP_items[OF Cons.prems(1)] obtain q1 where
      pq: "LINK_QUEUE_POP q = Some (case u16q_items q of [] \<Rightarrow> LINK_NO_DATA | v # vs \<Rightarrow> v, q1)"
        "wf_queue q1" "u16q_items q1 = tl (u16q_items q)" "cap q1 = cap q" "qj q1 = qj q"
      by blast
    from LINK_QUEUE_POP_items[OF Cons.prems(2)] obtain r1 where
      pr: "LINK_QUEUE_POP r = Some (case u16q_items r of [] \<Rightarrow> LINK_NO_DATA | v # vs \<Rightarrow> v, r1)"
        "wf_queue r1" "u16q_items r1 = tl (u16q_items r)" "cap r1 = cap r" "qj r1 = qj r"
      by blast
    have e: "u16q_empty q = u16q_empty r" using Cons.prems by (simp add: u16q_empty_def)
    have i: "qi q1 = qi r1"
      using LINK_QUEUE_POP_cursor[OF Cons.prems(1) pq(1)] LINK_QUEUE_POP_cursor[OF Cons.prems(2) pr(1)]
        e Cons.prems by (simp add: word_unat_eq_iff)
    have "map_option fst (run_ops q1 ops) = map_option fst (run_ops r1 ops)"
      using pq pr i Cons.prems by (intro Cons.IH) simp_all
    with pq(1) pr(1) Pop Cons.prems(6) show ?thesis
      by (cases "run_ops q1 ops"; cases "run_ops r1 ops") (auto simp: split_beta)
  qed
qed

section \<open>Properties of the connection\<close>

subsection \<open>Loops and registers\<close>

lemma isBitHigh_bit: "isBitHigh h b \<longleftrightarrow> bit (REG_SIOCNT h) b"
  by (simp add: isBitHigh_def bit_word_iff_drop_bit_and and_one_eq)

lemma for_each_from:
  assumes "I k s"
    and "\<And>n s. k \<le> n \<Longrightarrow> n < N \<Longrightarrow> I n s \<Longrightarrow> \<exists>s'. body n s = Some s' \<and> I (Suc n) s'"
    and "k \<le> N"
  shows "\<exists>s'. for_each [k..<N] body s = Some s' \<and> I N s'"
  using assms
proof (induction "N - k" arbitrary: k s)
  case 0
  then show ?case by simp
next
  case (Suc d)
  then have kN: "k < N" by simp
  from Suc.prems(2)[OF le_refl kN Suc.prems(1)] obtain s1 where
    s1: "body k s = Some s1" "I (Suc k) s1" by blast
  have "\<exists>s'. for_each [Suc k..<N] body s1 = Some s' \<and> I N s'"
  proof (rule Suc.hyps(1))
    show "d = N - Suc k" using Suc.hyps(2) by simp
    show "I (Suc k) s1" by (rule s1)
    show "Suc k \<le> N" using kN by simp
    show "\<exists>s'. body n s = Some s' \<and> I (Suc n) s'" if "Suc k \<le> n" "n < N" "I n s" for n s
      using Suc.prems(2)[of n s] that by simp
  qed
  then show ?case using kN s1 by (simp add: upt_conv_Cons)
qed

lemma for_each_preserves:
  assumes "for_each ns body s = Some s'" "P s"
    and "\<And>n s s'. n \<in> set ns \<Longrightarrow> P s \<Longrightarrow> body n s = Some s' \<Longrightarrow> P s'"
  shows "P s'"
  using assms
proof (induction ns arbitrary: s)
  case Nil
  then show ?case by simp
next
  case (Cons n ns)
  from Cons.prems(1) obtain s1 where s1: "body n s = Some s1" "for_each ns body s1 = Some s'"
    by (auto split: bind_splits)
  have "P s1" using Cons.prems(3)[of n s s1] Cons.prems(2) s1(1) by simp
  show ?case
  proof (rule Cons.IH[OF s1(2) \<open>P s1\<close>])
    show "P s'" if "m \<in> set ns" "P s" "body m s = Some s'" for m s s'
      using Cons.prems(3)[of m s s'] that by simp
  qed
qed

lemma length4E:
  assumes "length xs = LINK_MAX_PLAYERS"
  obtains a b c d where "xs = [a, b, c, d]"
  using assms by (auto simp: length_Suc_conv numeral_eq_Suc)

lemma upt4: "[0..<LINK_MAX_PLAYERS] = [0, 1, 2, 3]"
  by (simp add: upt_rec)

lemma replicate4: "replicate LINK_MAX_PLAYERS x = [x, x, x, x]"
  by (simp add: numeral_eq_Suc)

text \<open>One slot of the exchange-complete reaction, when it has a result.\<close>

lemma set_update_ball:
  assumes "\<forall>x \<in> set xs. P x" "P y"
  shows "\<forall>x \<in> set (xs[n := y]). P x"
  using assms set_update_subset_insert[of xs n y] by auto

lemma take_Suc_update:
  assumes "m < length ts"
  shows "take (Suc m) (ts[m := t]) = take m ts @ [t]"
  using assms by (simp add: take_Suc_conv_app_nth)

lemma baud_value_low: "take_bit 2 (baud_value b) = baud_value b"
  by (cases b) simp_all

lemma baud_bit: "bit (baud_value b) n \<Longrightarrow> n < 2"
  by (metis baud_value_low bit_take_bit_iff)

lemma bit_LINK_SET_HIGH: "bit (LINK_SET_HIGH r b) n \<longleftrightarrow> bit r n \<or> (n = b \<and> n < 16)"
  by (auto simp: LINK_SET_HIGH_def bit_or_iff bit_exp_iff possible_bit_word)

lemma lc_stop_Some:
  assumes "unat (send_timer_id c) < 4"
  shows "\<exists>h'. lc_stop K c h = Some h' \<and> REG_SIOCNT h' = REG_SIOCNT h \<and>
           REG_SIOMLT_SEND h' = REG_SIOMLT_SEND h \<and> REG_SIOMULTI h' = REG_SIOMULTI h"
  using assms by (simp add: lc_stop_def lc_stop_timer_def Let_def)

lemma lc_start_Some:
  assumes "unat (send_timer_id c) < 4"
  shows "\<exists>h'. lc_start K c h = Some h' \<and>
           REG_SIOCNT h' = LINK_SET_HIGH (LINK_SET_HIGH (baud_value (baud_rate c))
                              LINK_BIT_MULTIPLAYER) LINK_BIT_IRQ \<and>
           REG_SIOMLT_SEND h' = 0 \<and> REG_SIOMULTI h' = REG_SIOMULTI h"
  using assms
  by (simp add: lc_start_def lc_start_timer_def Let_def setBitHigh_def)

lemma started_not_sending:
  "\<not> bit (LINK_SET_HIGH (LINK_SET_HIGH (baud_value b) LINK_BIT_MULTIPLAYER) LINK_BIT_IRQ) LINK_BIT_START"
  using baud_bit[of b LINK_BIT_START] by (auto simp: bit_LINK_SET_HIGH)

subsection \<open>The full reset\<close>

lemma lc_reset_state_wf:
  assumes "wf_conn c"
  shows "lc_reset_state c = Some (c\<lparr>state := (state c)\<lparr>player_count := 0, current_player_id := 0,
      incoming_messages := map cleared (incoming_messages (state c)),
      outgoing_messages := cleared (outgoing_messages (state c)),
      timeouts := replicate LINK_MAX_PLAYERS LINK_REMOTE_TIMEOUT_OFFLINE,
      irq_flag := False, irq_timeout := 0\<rparr>\<rparr>)"
proof -
  from assms obtain q0 q1 q2 q3 where inc: "incoming_messages (state c) = [q0, q1, q2, q3]"
    by (auto simp: wf_conn_def elim: length4E)
  from assms obtain t0 t1 t2 t3 where ts: "timeouts (state c) = [t0, t1, t2, t3]"
    by (auto simp: wf_conn_def elim: length4E)
  from assms inc have wf: "wf_queue q0" "wf_queue q1" "wf_queue q2" "wf_queue q3"
    "wf_queue (outgoing_messages (state c))"
    by (simp_all add: wf_conn_def)
  show ?thesis
    by (simp add: lc_reset_state_def upt4 inc ts wf LINK_QUEUE_CLEAR_cleared numeral_eq_Suc)
qed

text \<open>The connection a full reset leaves.\<close>

lemma lc_reset_wf:
  assumes "wf_conn c"
  shows "\<exists>c' h'. lc_reset_state c = Some c' \<and> lc_reset K c h = Some (c', h') \<and>
           \<not> lc_is_sending c' h' \<and> REG_SIOMLT_SEND h' = 0"
proof -
  let ?c' = "c\<lparr>state := (state c)\<lparr>player_count := 0, current_player_id := 0,
      incoming_messages := map cleared (incoming_messages (state c)),
      outgoing_messages := cleared (outgoing_messages (state c)),
      timeouts := replicate LINK_MAX_PLAYERS LINK_REMOTE_TIMEOUT_OFFLINE,
      irq_flag := False, irq_timeout := 0\<rparr>\<rparr>"
  have rs: "lc_reset_state c = Some ?c'" by (rule lc_reset_state_wf[OF assms])
  have id: "unat (send_timer_id ?c') < 4" using assms by (simp add: wf_conn_def)
  from lc_stop_Some[OF id, of K h] obtain h1 where h1: "lc_stop K ?c' h = Some h1" by blast
  from lc_start_Some[OF id, of K h1] obtain h2 where h2: "lc_start K ?c' h1 = Some h2"
    "REG_SIOCNT h2 = LINK_SET_HIGH (LINK_SET_HIGH (baud_value (baud_rate ?c'))
                              LINK_BIT_MULTIPLAYER) LINK_BIT_IRQ"
    "REG_SIOMLT_SEND h2 = 0" by blast
  have "lc_reset K c h = Some (?c', h2)" using rs h1 h2(1) by (simp add: lc_reset_def)
  moreover have "\<not> lc_is_sending ?c' h2"
    using started_not_sending[of "baud_rate c"] h2(2) by (simp add: lc_is_sending_def isBitHigh_bit)
  ultimately show ?thesis using rs h2(3) by blast
qed

lemma lc_reset_state_post:
  assumes "wf_conn c" "lc_reset_state c = Some c'"
  shows "player_count (state c') = 0" "current_player_id (state c') = 0"
    "length (incoming_messages (state c')) = LINK_MAX_PLAYERS"
    "\<forall>q \<in> set (incoming_messages (state c')). u16q_empty q \<and> u16q_items q = [] \<and> wf_queue q"
    "u16q_empty (outgoing_messages (state c'))" "u16q_items (outgoing_messages (state c')) = []"
    "timeouts (state c') = replicate LINK_MAX_PLAYERS LINK_REMOTE_TIMEOUT_OFFLINE"
    "\<not> irq_flag (state c')" "irq_timeout (state c') = 0"
    "wf_conn c'" "is_locked (state c') = is_locked (state c)" "is_enabled c' = is_enabled c"
    "timeout c' = timeout c" "remote_timeout c' = remote_timeout c" "buffer_size c' = buffer_size c"
    "baud_rate c' = baud_rate c" "interval c' = interval c" "send_timer_id c' = send_timer_id c"
proof -
  from assms lc_reset_state_wf[OF assms(1)] have c': "c' = c\<lparr>state := (state c)\<lparr>player_count := 0, current_player_id := 0,
      incoming_messages := map cleared (incoming_messages (state c)),
      outgoing_messages := cleared (outgoing_messages (state c)),
      timeouts := replicate LINK_MAX_PLAYERS LINK_REMOTE_TIMEOUT_OFFLINE,
      irq_flag := False, irq_timeout := 0\<rparr>\<rparr>" by simp
  from assms(1) have wfq: "\<forall>q \<in> set (incoming_messages (state c)). wf_queue q"
    "wf_queue (outgoing_messages (state c))" "length (incoming_messages (state c)) = 4"
    "unat (send_timer_id c) < 4"
    by (simp_all add: wf_conn_def)
  show "player_count (state c') = 0" "current_player_id (state c') = 0"
    "timeouts (state c') = replicate LINK_MAX_PLAYERS LINK_REMOTE_TIMEOUT_OFFLINE"
    "\<not> irq_flag (state c')" "irq_timeout (state c') = 0"
    "is_locked (state c') = is_locked (state c)" "is_enabled c' = is_enabled c"
    "timeout c' = timeout c" "remote_timeout c' = remote_timeout c" "buffer_size c' = buffer_size c"
    "baud_rate c' = baud_rate c" "interval c' = interval c" "send_timer_id c' = send_timer_id c"
    by (simp_all add: c')
  show "length (incoming_messages (state c')) = LINK_MAX_PLAYERS" using wfq by (simp add: c')
  show inc: "\<forall>q \<in> set (incoming_messages (state c')). u16q_empty q \<and> u16q_items q = [] \<and> wf_queue q"
    using wfq by (auto simp: c' cleared_props)
  show "u16q_empty (outgoing_messages (state c'))" "u16q_items (outgoing_messages (state c')) = []"
    using wfq by (simp_all add: c' cleared_props)
  show "wf_conn c'"
    using wfq inc by (simp add: wf_conn_def c' cleared_props replicate4)
qed

subsection \<open>Sending\<close>

lemma lc_send_all_pushes:
  assumes "\<forall>v \<in> set vs. v \<noteq> LINK_NO_DATA \<and> v \<noteq> LINK_DISCONNECTED"
    and "run_ops (outgoing_messages (state c)) (map Push vs) = Some ([], q')"
  shows "\<exists>c'. lc_send_all c vs = Some c' \<and> outgoing_messages (state c') = q'"
  using assms
proof (induction vs arbitrary: c)
  case Nil
  then show ?case by simp
next
  case (Cons v vs)
  from Cons.prems(2) obtain q1 where p: "u16q_push (outgoing_messages (state c)) v = Some q1"
    and r: "run_ops q1 (map Push vs) = Some ([], q')"
    by (auto split: bind_splits)
  let ?c1 = "c\<lparr>state := (state c)\<lparr>outgoing_messages := q1, is_locked := False\<rparr>\<rparr>"
  have s: "lc_send c v = Some ?c1"
    using Cons.prems(1) p by (simp add: lc_send_def Let_def)
  from Cons.IH[of ?c1] Cons.prems(1) r obtain c' where
    "lc_send_all ?c1 vs = Some c'" "outgoing_messages (state c') = q'" by auto
  with s show ?case by simp
qed

lemma lc_send_pending_data_empty:
  assumes "u16q_empty (outgoing_messages (state c))"
  shows "\<exists>c2 h2. lc_send_pending_data c h = Some (c2, h2) \<and> REG_SIOMLT_SEND h2 = LINK_NO_DATA"
  using assms
  by (simp add: lc_send_pending_data_def LINK_QUEUE_POP_empty lc_transfer_def Let_def setBitHigh_def)

subsection \<open>The invariant of reachable connections\<close>

lemma sentinel_free_Nil: "u16q_items q = [] \<Longrightarrow> sentinel_free q"
  by (simp add: sentinel_free_def)

lemma sentinel_free_push:
  assumes "wf_queue q" "u16q_push q v = Some q'" "sentinel_free q"
    "v \<noteq> LINK_NO_DATA" "v \<noteq> LINK_DISCONNECTED"
  shows "sentinel_free q'"
  using u16q_push_props(6)[OF assms(1,2)] assms(3-5)
  by (auto simp: sentinel_free_def split: if_splits)

lemma sentinel_free_pop:
  assumes "wf_queue q" "LINK_QUEUE_POP q = Some (v, q')" "sentinel_free q"
  shows "sentinel_free q'" "wf_queue q'" "cap q' = cap q"
    "v \<noteq> LINK_DISCONNECTED" "v = LINK_NO_DATA \<longrightarrow> u16q_empty q"
proof -
  from LINK_QUEUE_POP_items[OF assms(1)] assms(2)
  have v: "v = (case u16q_items q of [] \<Rightarrow> LINK_NO_DATA | v # vs \<Rightarrow> v)"
    and q': "wf_queue q'" "u16q_items q' = tl (u16q_items q)" "cap q' = cap q"
    by auto
  show "wf_queue q'" "cap q' = cap q" by (rule q')+
  show "sentinel_free q'"
    using assms(3) q'(2) by (cases "u16q_items q") (auto simp: sentinel_free_def)
  show "v \<noteq> LINK_DISCONNECTED"
    using assms(3) v by (cases "u16q_items q") (auto simp: sentinel_free_def)
  show "v = LINK_NO_DATA \<longrightarrow> u16q_empty q"
    using assms(3) v u16q_empty_items[OF assms(1)]
    by (cases "u16q_items q") (auto simp: sentinel_free_def)
qed

lemma slots_ok_update:
  assumes "slots_ok B st" "wf_queue q'" "sentinel_free q'" "cap q' = B" "t' \<noteq> 0x7FFFFFFF"
  shows "slots_ok B (st\<lparr>incoming_messages := (incoming_messages st)[n := q'],
                        timeouts := (timeouts st)[n := t']\<rparr>)"
proof -
  have "\<forall>q \<in> set ((incoming_messages st)[n := q']). wf_queue q \<and> sentinel_free q \<and> cap q = B"
    using assms by (intro set_update_ball) (simp_all add: slots_ok_def)
  moreover have "\<forall>t \<in> set ((timeouts st)[n := t']). t \<noteq> 0x7FFFFFFF"
    using assms by (intro set_update_ball) (simp_all add: slots_ok_def)
  ultimately show ?thesis using assms(1) by (simp add: slots_ok_def)
qed

lemma on_serial_slot_preserves:
  assumes "on_serial_slot c h n (st, k) = Some (st', k')" "n < LINK_MAX_PLAYERS"
  shows "slots_ok B st \<Longrightarrow> slots_ok B st'"
    and "outgoing_messages st' = outgoing_messages st"
    and "is_locked st' = is_locked st"
    and "irq_flag st' = irq_flag st"
    and "irq_timeout st' = irq_timeout st"
proof -
  show "outgoing_messages st' = outgoing_messages st" "is_locked st' = is_locked st"
    "irq_flag st' = irq_flag st" "irq_timeout st' = irq_timeout st"
    using assms(1)
    by (auto simp: on_serial_slot_def Let_def split: if_splits bind_splits)
  assume ok: "slots_ok B st"
  then have q: "wf_queue (incoming_messages st ! n)" "sentinel_free (incoming_messages st ! n)"
    "cap (incoming_messages st ! n) = B"
    using assms(2) by (auto simp: slots_ok_def)
  note cl = LINK_QUEUE_CLEAR_cleared[OF q(1)] cleared_props[OF q(1)]
  have upd: "slots_ok B (st\<lparr>incoming_messages := (incoming_messages st)[n := q'],
                           timeouts := (timeouts st)[n := t']\<rparr>)"
    if "wf_queue q'" "sentinel_free q'" "cap q' = B" "t' \<noteq> 0x7FFFFFFF" for q' t'
    using ok that by (rule slots_ok_update)
  show "slots_ok B st'"
  proof (cases "REG_SIOMULTI h n = LINK_DISCONNECTED")
    case False
    show ?thesis
    proof (cases "REG_SIOMULTI h n \<noteq> LINK_NO_DATA \<and> n \<noteq> unat (current_player_id st)")
      case True
      with False assms(1) obtain q' where
        push: "u16q_push (incoming_messages st ! n) (REG_SIOMULTI h n) = Some q'"
        and st': "st' = st\<lparr>incoming_messages := (incoming_messages st)[n := q'],
                           timeouts := (timeouts st)[n := 0]\<rparr>"
        by (auto simp: on_serial_slot_def Let_def split: bind_splits)
      from u16q_push_props(1,2)[OF q(1) push] sentinel_free_push[OF q(1) push q(2)] True False q(3)
      show ?thesis unfolding st' by (intro upd) auto
    next
      case nopush: False
      with False assms(1) have st': "st' = st\<lparr>timeouts := (timeouts st)[n := 0]\<rparr>"
        by (auto simp: on_serial_slot_def Let_def split: bind_splits)
      have "st' = st\<lparr>incoming_messages := (incoming_messages st)[n := incoming_messages st ! n],
                           timeouts := (timeouts st)[n := 0]\<rparr>"
        by (simp add: st')
      then show ?thesis using upd[OF q, of 0] by simp
    qed
  next
    case True
    show ?thesis
    proof (cases "LINK_REMOTE_TIMEOUT_OFFLINE <s timeouts st ! n")
      case False
      with True assms(1) have "st' = st" by (simp add: on_serial_slot_def Let_def)
      with ok show ?thesis by simp
    next
      case online: True
      with True assms(1) have ne: "timeouts st ! n \<noteq> 0x7FFFFFFF"
        by (auto simp: on_serial_slot_def Let_def split: if_splits)
      have len: "n < length (timeouts st)" using ok assms(2) by (simp add: slots_ok_def)
      show ?thesis
      proof (cases "remote_timeout c \<le>s timeouts st ! n + 1")
        case evict: True
        with True online ne assms(1) len cl(1)
        have st': "st' = st\<lparr>incoming_messages := (incoming_messages st)[n := cleared (incoming_messages st ! n)],
                           timeouts := (timeouts st)[n := LINK_REMOTE_TIMEOUT_OFFLINE]\<rparr>"
          by (simp add: on_serial_slot_def Let_def)
        show ?thesis unfolding st'
          using cl q(3) by (intro upd) (auto intro: sentinel_free_Nil)
      next
        case grace: False
        with True online ne assms(1) len
        have st': "st' = st\<lparr>timeouts := (timeouts st)[n := timeouts st ! n + 1]\<rparr>"
          by (simp add: on_serial_slot_def Let_def)
        have "timeouts st ! n + 1 \<noteq> 0x7FFFFFFF"
        proof
          assume "timeouts st ! n + 1 = 0x7FFFFFFF"
          then have "remote_timeout c \<le>s timeouts st ! n + 1"
            using sint_lt[of "remote_timeout c"] by (simp add: word_sle_eq)
          with grace show False by simp
        qed
        from upd[OF q this] show ?thesis by (simp add: st')
      qed
    qed
  qed
qed

lemma conn_inv_alt:
  "conn_inv cfg c \<longleftrightarrow>
     slots_ok (buffer_size c) (state c) \<and>
     wf_queue (outgoing_messages (state c)) \<and>
     sentinel_free (outgoing_messages (state c)) \<and>
     cap (outgoing_messages (state c)) = buffer_size c \<and>
     unat (send_timer_id c) < 4 \<and>
     timeout c = cfg_timeout cfg \<and>
     remote_timeout c = cfg_remote_timeout cfg \<and>
     buffer_size c = cfg_buffer_size cfg"
  by (auto simp: conn_inv_def wf_conn_def slots_ok_def)

lemma conn_inv_wf: "conn_inv cfg c \<Longrightarrow> wf_conn c"
  by (simp add: conn_inv_def)

lemma lc_reset_state_inv:
  assumes "conn_inv cfg c" "lc_reset_state c = Some c'"
  shows "conn_inv cfg c'"
proof -
  note post = lc_reset_state_post[OF conn_inv_wf[OF assms(1)] assms(2)]
  from assms(1) have wfq: "\<forall>q \<in> set (incoming_messages (state c)). wf_queue q \<and> cap q = buffer_size c"
    "wf_queue (outgoing_messages (state c))" "cap (outgoing_messages (state c)) = buffer_size c"
    by (auto simp: conn_inv_def wf_conn_def)
  from assms lc_reset_state_wf[OF conn_inv_wf[OF assms(1)]]
  have inc: "incoming_messages (state c') = map cleared (incoming_messages (state c))"
    and out: "outgoing_messages (state c') = cleared (outgoing_messages (state c))"
    by auto
  have "\<forall>q \<in> set (incoming_messages (state c')). sentinel_free q \<and> cap q = buffer_size c'"
    using wfq(1) post(15) by (auto simp: inc cleared_props intro: sentinel_free_Nil)
  moreover have "sentinel_free (outgoing_messages (state c'))"
    using post(6) by (rule sentinel_free_Nil)
  moreover have "cap (outgoing_messages (state c')) = buffer_size c'"
    using wfq(2,3) post(15) by (simp add: out cleared_props)
  ultimately show ?thesis
    using post(10,13,14,15) assms(1) by (simp add: conn_inv_def)
qed

lemma lc_reset_inv:
  assumes "conn_inv cfg c" "lc_reset K c h = Some (c', h')"
  shows "conn_inv cfg c'" "lc_reset_state c = Some c'"
proof -
  from assms(2) show "lc_reset_state c = Some c'"
    by (auto simp: lc_reset_def split: bind_splits)
  then show "conn_inv cfg c'" by (rule lc_reset_state_inv[OF assms(1)])
qed

lemma conn_inv_enabled: "conn_inv cfg c \<Longrightarrow> conn_inv cfg (c\<lparr>is_enabled := b\<rparr>)"
  by (simp add: conn_inv_def wf_conn_def)

lemma lc_activate_inv:
  assumes "conn_inv cfg c" "lc_activate K c h = Some (c', h')"
  shows "conn_inv cfg c'"
proof -
  from assms(2) obtain c1 h1 where "lc_reset K c h = Some (c1, h1)" "c' = c1\<lparr>is_enabled := True\<rparr>"
    by (auto simp: lc_activate_def split: bind_splits)
  with lc_reset_inv(1)[OF assms(1)] conn_inv_enabled show ?thesis by blast
qed

lemma lc_deactivate_inv:
  assumes "conn_inv cfg c" "lc_deactivate K c h = Some (c', h')"
  shows "conn_inv cfg c'"
proof -
  from assms(2) have "lc_reset_state (c\<lparr>is_enabled := False\<rparr>) = Some c'"
    by (auto simp: lc_deactivate_def Let_def split: bind_splits)
  with lc_reset_state_inv[OF conn_inv_enabled[OF assms(1)]] show ?thesis by blast
qed

lemma lc_send_inv:
  assumes "conn_inv cfg c" "lc_send c v = Some c'"
  shows "conn_inv cfg c'"
proof (cases "v = LINK_DISCONNECTED \<or> v = LINK_NO_DATA")
  case True
  with assms show ?thesis by (simp add: lc_send_def)
next
  case False
  with assms(2) obtain q where push: "u16q_push (outgoing_messages (state c)) v = Some q"
    and c': "c' = c\<lparr>state := (state c)\<lparr>outgoing_messages := q, is_locked := False\<rparr>\<rparr>"
    by (auto simp: lc_send_def Let_def split: bind_splits)
  from assms(1) have o: "wf_queue (outgoing_messages (state c))"
    "sentinel_free (outgoing_messages (state c))"
    by (simp_all add: conn_inv_alt)
  from u16q_push_props(1,2)[OF o(1) push] sentinel_free_push[OF o(1) push o(2)] False assms(1)
  show ?thesis by (simp add: conn_inv_alt c' slots_ok_def)
qed

lemma lc_has_message_inv:
  assumes "conn_inv cfg c" "lc_has_message c p = Some (b, c')"
  shows "conn_inv cfg c'"
  using assms
  by (auto simp: lc_has_message_def linkstate_has_message_def Let_def conn_inv_alt slots_ok_def
      split: bind_splits if_splits)

lemma lc_read_message_inv:
  assumes "conn_inv cfg c" "lc_read_message c p = Some (v, c')"
  shows "conn_inv cfg c'"
    and "v \<noteq> LINK_DISCONNECTED"
    and "v = LINK_NO_DATA \<longrightarrow> u16q_empty (incoming_messages (state c) ! unat p)"
proof -
  from assms(2) have p: "unat p < LINK_MAX_PLAYERS"
    by (auto simp: lc_read_message_def linkstate_read_message_def split: bind_splits if_splits)
  with assms(2) obtain q where pop: "LINK_QUEUE_POP (incoming_messages (state c) ! unat p) = Some (v, q)"
    and c': "c' = c\<lparr>state := (state c)\<lparr>incoming_messages := (incoming_messages (state c))[unat p := q],
                                         is_locked := False\<rparr>\<rparr>"
    by (auto simp: lc_read_message_def linkstate_read_message_def Let_def split: bind_splits)
  from assms(1) have ok: "slots_ok (buffer_size c) (state c)" by (auto simp: conn_inv_alt)
  with p have q0: "wf_queue (incoming_messages (state c) ! unat p)"
    "sentinel_free (incoming_messages (state c) ! unat p)"
    "cap (incoming_messages (state c) ! unat p) = buffer_size c"
    by (auto simp: slots_ok_def)
  note r = sentinel_free_pop[OF q0(1) pop q0(2)]
  show "v \<noteq> LINK_DISCONNECTED" "v = LINK_NO_DATA \<longrightarrow> u16q_empty (incoming_messages (state c) ! unat p)"
    by (rule r)+
  have "\<forall>x \<in> set ((incoming_messages (state c))[unat p := q]).
          wf_queue x \<and> sentinel_free x \<and> cap x = buffer_size c"
    using ok r q0(3) by (intro set_update_ball) (simp_all add: slots_ok_def)
  with ok assms(1) show "conn_inv cfg c'" by (simp add: conn_inv_alt c' slots_ok_def)
qed

lemma lc_on_vblank_inv:
  assumes "conn_inv cfg c"
  shows "conn_inv cfg (lc_on_vblank c)"
  using assms by (simp add: lc_on_vblank_def Let_def conn_inv_alt slots_ok_def)

lemma lc_send_pending_data_inv:
  assumes "conn_inv cfg c" "lc_send_pending_data c h = Some (c', h')"
  shows "conn_inv cfg c'"
proof -
  from assms(2) obtain v q where pop: "LINK_QUEUE_POP (outgoing_messages (state c)) = Some (v, q)"
    and c': "c' = c\<lparr>state := (state c)\<lparr>outgoing_messages := q\<rparr>\<rparr>"
    by (auto simp: lc_send_pending_data_def Let_def split: bind_splits)
  from assms(1) have o: "wf_queue (outgoing_messages (state c))"
    "sentinel_free (outgoing_messages (state c))"
    by (simp_all add: conn_inv_alt)
  from sentinel_free_pop(1-3)[OF o(1) pop o(2)] assms(1)
  show ?thesis by (simp add: conn_inv_alt c' slots_ok_def)
qed

lemma lc_on_timer_inv:
  assumes "conn_inv cfg c" "lc_on_timer K c h = Some (c', h')"
  shows "conn_inv cfg c'"
  using assms lc_reset_inv(1)[OF assms(1)] lc_send_pending_data_inv[OF assms(1)]
  by (auto simp: lc_on_timer_def split: if_splits)

lemma lc_on_serial_inv:
  assumes "conn_inv cfg c" "lc_on_serial K c h = Some (c', h')"
  shows "conn_inv cfg c'"
proof (cases "\<not> is_enabled c \<or> is_locked (state c)")
  case True
  with assms show ?thesis by (simp add: lc_on_serial_def)
next
  case active: False
  show ?thesis
  proof (cases "\<not> lc_is_ready c h \<or> lc_has_error c h")
    case True
    with active assms(2) have "lc_reset K c h = Some (c', h')"
      by (auto simp: lc_on_serial_def lc_reset_if_needed_def split: bind_splits)
    then show ?thesis by (rule lc_reset_inv(1)[OF assms(1)])
  next
    case False
    let ?st0 = "(state c)\<lparr>irq_flag := True, irq_timeout := 0\<rparr>"
    define P where "P = (\<lambda>(st, k :: s32). slots_ok (buffer_size c) st \<and>
                outgoing_messages st = outgoing_messages (state c))"
    from False active assms(2) obtain st1 k where
      loop: "for_each [0..<LINK_MAX_PLAYERS] (on_serial_slot c h) (?st0, 0) = Some (st1, k)"
      by (auto simp: lc_on_serial_def lc_reset_if_needed_def Let_def split: bind_splits)
    define c2 where "c2 = c\<lparr>state := st1\<lparr>player_count := ucast k,
        current_player_id := ucast (drop_bit LINK_BITS_PLAYER_ID
                               (REG_SIOCNT h AND push_bit LINK_BITS_PLAYER_ID 3))\<rparr>\<rparr>"
    have fin: "(if \<not> lc_is_master c2 h then lc_send_pending_data c2 h else Some (c2, h)) = Some (c', h')"
      using False active assms(2) loop
      by (auto simp: lc_on_serial_def lc_reset_if_needed_def Let_def c2_def split: if_splits)
    have "P (st1, k)"
    proof (rule for_each_preserves[where P = P, OF loop])
      show "P (?st0, 0)" using assms(1) by (auto simp: P_def conn_inv_alt slots_ok_def)
      show "P s'" if "n \<in> set [0..<LINK_MAX_PLAYERS]" "P s" "on_serial_slot c h n s = Some s'"
        for n s s'
        using that on_serial_slot_preserves(1)[of c h n "fst s" "snd s" "fst s'" "snd s'" "buffer_size c"]
          on_serial_slot_preserves(2)[of c h n "fst s" "snd s" "fst s'" "snd s'"]
        by (cases s; cases s') (auto simp: P_def)
    qed
    then have "conn_inv cfg c2" using assms(1) by (auto simp: P_def conn_inv_alt c2_def slots_ok_def)
    with fin lc_send_pending_data_inv[of cfg c2 h c' h'] show ?thesis
      by (auto split: if_splits)
  qed
qed

lemma lc_init_inv:
  assumes "lc_init K cfg blks h = Some (c, h')"
    "\<forall>n \<le> LINK_MAX_PLAYERS. length (blks n) = unat (cfg_buffer_size cfg)"
  shows "conn_inv cfg c"
proof -
  from assms(1) have c: "c = \<lparr>state = linkstate_init (cfg_buffer_size cfg) blks,
                 baud_rate = cfg_baud_rate cfg,
                 timeout = cfg_timeout cfg,
                 remote_timeout = cfg_remote_timeout cfg,
                 buffer_size = cfg_buffer_size cfg,
                 interval = cfg_interval cfg,
                 send_timer_id = cfg_send_timer_id cfg,
                 is_enabled = False\<rparr>"
    and id: "unat (cfg_send_timer_id cfg) < 4"
    by (auto simp: lc_init_def Let_def lc_stop_def lc_stop_timer_def split: bind_splits if_splits)
  have q: "wf_queue (u16q_init (cfg_buffer_size cfg) (blks n)) \<and>
           sentinel_free (u16q_init (cfg_buffer_size cfg) (blks n))" if "n \<le> LINK_MAX_PLAYERS" for n
    using assms(2) that
    by (auto simp: wf_queue_def u16q_init_def sentinel_free_def u16q_items_def ring_def
        word_less_nat_alt unat_gt_0 unat_eq_zero)
  show ?thesis
    using id q by (simp add: c conn_inv_alt slots_ok_def linkstate_init_def upt4 u16q_init_def[where c="cfg_buffer_size cfg", THEN arg_cong[where f=cap]])
qed

lemma reachable_inv:
  assumes "reachable K cfg c"
  shows "conn_inv cfg c"
  using assms
proof (induction rule: reachable.induct)
  case (r_init blks h c h')
  then show ?case by (rule lc_init_inv)
next
  case (r_vblank c)
  then show ?case by (simp add: lc_on_vblank_inv)
qed (blast intro: lc_activate_inv lc_deactivate_inv lc_send_inv lc_has_message_inv
       lc_read_message_inv(1) lc_on_timer_inv lc_on_serial_inv)+

subsection \<open>Ticks\<close>

text \<open>
  \<open>n\<close> tick reactions on an enabled, unguarded connection: the first one only
  clears the activity flag when it is set, every other one adds 1 to the
  silence counter.
\<close>

lemma lc_on_vblank_counted:
  assumes "is_enabled c" "\<not> is_locked (state c)"
  shows "(lc_on_vblank ^^ n) c =
     (if n = 0 then c
      else c\<lparr>state := (state c)\<lparr>irq_timeout := irq_timeout (state c)
                + of_nat (n - (if irq_flag (state c) then 1 else 0)), irq_flag := False\<rparr>\<rparr>)"
proof (induction n)
  case 0
  then show ?case by simp
next
  case (Suc n)
  show ?case
  proof (cases n)
    case 0
    with assms show ?thesis by (simp add: lc_on_vblank_def Let_def)
  next
    case (Suc m)
    with Suc.IH assms show ?thesis
      by (cases "irq_flag (state c)") (simp_all add: lc_on_vblank_def Let_def)
  qed
qed

subsection \<open>Silent slots\<close>

text \<open>Counters and the remote timeout as signed values.\<close>

lemma sint_small:
  fixes w :: u32
  assumes "unat w < 2 ^ 31"
  shows "sint w = int (unat w)"
proof -
  from assms have "int (unat w) < int (2 ^ 31)" by (simp only: of_nat_less_iff)
  then have "uint w < 2 ^ 31" by simp
  moreover have "- (2 ^ 31) \<le> uint w" by (rule order_trans[of _ 0]) simp_all
  ultimately have "signed_take_bit 31 (uint w) = uint w"
    by (rule signed_take_bit_int_eq_self[rotated])
  then show ?thesis unfolding sint_uint by simp
qed

lemma unat_of_nat_small:
  assumes "n < 2 ^ 31"
  shows "unat (of_nat n :: u32) = n"
proof -
  have "n < 2 ^ 32" using assms by simp
  then show ?thesis by (simp add: unat_of_nat take_bit_nat_eq_self)
qed

lemma sint_of_nat_small:
  assumes "n < 2 ^ 31"
  shows "sint (of_nat n :: u32) = int n"
  using assms sint_small[of "of_nat n"] unat_of_nat_small[OF assms] by simp

lemma offline_less_count:
  assumes "n < 2 ^ 31"
  shows "LINK_REMOTE_TIMEOUT_OFFLINE <s (of_nat n :: s32)"
  using sint_of_nat_small[OF assms] by (simp add: word_sless_alt)

lemma count_not_max:
  assumes "Suc n < 2 ^ 31"
  shows "(of_nat n :: s32) \<noteq> 0x7FFFFFFF"
proof
  assume "(of_nat n :: s32) = 0x7FFFFFFF"
  then have "unat (of_nat n :: s32) = unat (0x7FFFFFFF :: s32)" by simp
  moreover have "unat (of_nat n :: s32) = n" using assms by (intro unat_of_nat_small) simp
  ultimately show False using assms by simp
qed

lemma timeout_reached_iff:
  fixes rt :: u32
  assumes "unat rt < 2 ^ 31" "Suc n < 2 ^ 31"
  shows "rt \<le>s of_nat n + 1 \<longleftrightarrow> unat rt \<le> Suc n"
proof -
  have e: "of_nat n + 1 = (of_nat (Suc n) :: u32)" by simp
  have "rt \<le>s of_nat (Suc n) \<longleftrightarrow> int (unat rt) \<le> int (Suc n)"
    unfolding word_sle_eq sint_small[OF assms(1)] sint_of_nat_small[OF assms(2)] ..
  then show ?thesis unfolding e by linarith
qed

lemma sint_max: "sint (0x7FFFFFFF :: s32) = 2147483647"
  by simp

lemma sint_succ:
  fixes t :: s32
  shows "sint (t + 1) = signed_take_bit 31 (sint t + 1)"
proof -
  have "sint (t + 1) = signed_take_bit (LENGTH(32) - 1) (sint t + sint (1::s32))"
    by (rule sint_word_add)
  then show ?thesis by simp
qed

lemma max_from_sint:
  fixes t :: s32
  assumes "sint t = 2147483647"
  shows "t = 0x7FFFFFFF"
proof (rule signed_word_eqI)
  show "sint t = sint (0x7FFFFFFF :: s32)" unfolding sint_max by (rule assms)
qed

lemma online_succ:
  fixes t :: s32
  assumes "LINK_REMOTE_TIMEOUT_OFFLINE <s t" "t \<noteq> 0x7FFFFFFF"
  shows "LINK_REMOTE_TIMEOUT_OFFLINE <s t + 1"
proof -
  from assms(1) have ge: "0 \<le> sint t" by (simp add: word_sless_alt)
  have "sint t \<noteq> 2147483647" using max_from_sint[of t] assms(2) by blast
  moreover have "sint t < 2147483648" using sint_lt[of t] by simp
  ultimately have lt: "sint t + 1 < 2 ^ 31" by simp
  have "- (2 ^ 31) \<le> sint t + 1" using ge by simp
  then have "signed_take_bit 31 (sint t + 1) = sint t + 1"
    using lt by (rule signed_take_bit_int_eq_self)
  then have "sint (t + 1) = sint t + 1" by (simp only: sint_succ)
  with ge show ?thesis by (simp add: word_sless_alt)
qed

text \<open>
  One slot of the exchange-complete reaction on a queue with cells: it has a
  result, it changes only that slot's queue and counter, and it counts the slot
  exactly when the counter it leaves is above the offline value.
\<close>

lemma on_serial_slot_total:
  assumes "n < length (incoming_messages st)" "n < length (timeouts st)"
    "wf_queue (incoming_messages st ! n)" "cap (incoming_messages st ! n) \<noteq> 0"
    "timeouts st ! n \<noteq> 0x7FFFFFFF"
  shows "\<exists>q' t'. on_serial_slot c h n (st, k) =
           Some (st\<lparr>incoming_messages := (incoming_messages st)[n := q'],
                     timeouts := (timeouts st)[n := t']\<rparr>,
                 if LINK_REMOTE_TIMEOUT_OFFLINE <s t' then k + 1 else k) \<and>
         wf_queue q' \<and> cap q' = cap (incoming_messages st ! n) \<and> t' \<noteq> 0x7FFFFFFF \<and>
         (REG_SIOMULTI h n = LINK_DISCONNECTED \<longrightarrow>
            (if LINK_REMOTE_TIMEOUT_OFFLINE <s timeouts st ! n
             then (if remote_timeout c \<le>s timeouts st ! n + 1
                   then q' = cleared (incoming_messages st ! n) \<and> t' = LINK_REMOTE_TIMEOUT_OFFLINE
                   else q' = incoming_messages st ! n \<and> t' = timeouts st ! n + 1)
             else q' = incoming_messages st ! n \<and> t' = timeouts st ! n))"
proof -
  let ?q = "incoming_messages st ! n" and ?t = "timeouts st ! n"
  have same: "st\<lparr>incoming_messages := (incoming_messages st)[n := ?q],
                  timeouts := (timeouts st)[n := t']\<rparr> = st\<lparr>timeouts := (timeouts st)[n := t']\<rparr>" for t'
    by simp
  have off: "LINK_REMOTE_TIMEOUT_OFFLINE <s (0 :: s32)" "\<not> LINK_REMOTE_TIMEOUT_OFFLINE <s (LINK_REMOTE_TIMEOUT_OFFLINE :: s32)"
    by (simp_all add: word_sless_alt)
  show ?thesis
  proof (cases "REG_SIOMULTI h n = LINK_DISCONNECTED")
    case False
    show ?thesis
    proof (cases "REG_SIOMULTI h n \<noteq> LINK_NO_DATA \<and> n \<noteq> unat (current_player_id st)")
      case True
      from u16q_push_Some[OF assms(3,4)] obtain q' where
        p: "u16q_push ?q (REG_SIOMULTI h n) = Some q'" by blast
      note pp = u16q_push_props(1,2)[OF assms(3) p]
      have "on_serial_slot c h n (st, k) =
           Some (st\<lparr>incoming_messages := (incoming_messages st)[n := q'],
                     timeouts := (timeouts st)[n := 0]\<rparr>, k + 1)"
        using False True p by (simp add: on_serial_slot_def Let_def)
      with pp off False show ?thesis
        by (intro exI[of _ q'] exI[of _ 0]) simp
    next
      case nopush: False
      have "on_serial_slot c h n (st, k) = Some (st\<lparr>timeouts := (timeouts st)[n := 0]\<rparr>, k + 1)"
        using False nopush by (auto simp: on_serial_slot_def Let_def)
      with assms(3) off False same[of 0] show ?thesis
        by (intro exI[of _ ?q] exI[of _ 0]) simp
    qed
  next
    case True
    show ?thesis
    proof (cases "LINK_REMOTE_TIMEOUT_OFFLINE <s ?t")
      case False
      have "on_serial_slot c h n (st, k) = Some (st, k)"
        using True False by (simp add: on_serial_slot_def Let_def)
      with assms(3,5) True False show ?thesis
        by (intro exI[of _ ?q] exI[of _ ?t]) simp
    next
      case online: True
      show ?thesis
      proof (cases "remote_timeout c \<le>s ?t + 1")
        case evict: True
        have "on_serial_slot c h n (st, k) =
           Some (st\<lparr>incoming_messages := (incoming_messages st)[n := cleared ?q],
                     timeouts := (timeouts st)[n := LINK_REMOTE_TIMEOUT_OFFLINE]\<rparr>, k)"
          using True online evict assms(2,5) LINK_QUEUE_CLEAR_cleared[OF assms(3)]
          by (simp add: on_serial_slot_def Let_def)
        with cleared_props(1,4)[OF assms(3)] True online evict off show ?thesis
          by (intro exI[of _ "cleared ?q"] exI[of _ LINK_REMOTE_TIMEOUT_OFFLINE]) simp
      next
        case grace: False
        have r: "on_serial_slot c h n (st, k) =
           Some (st\<lparr>timeouts := (timeouts st)[n := ?t + 1]\<rparr>, k + 1)"
          using True online grace assms(2,5) by (simp add: on_serial_slot_def Let_def)
        have ne: "?t + 1 \<noteq> 0x7FFFFFFF"
        proof
          assume "?t + 1 = 0x7FFFFFFF"
          then have "remote_timeout c \<le>s ?t + 1"
            using sint_lt[of "remote_timeout c"] by (simp add: word_sle_eq)
          with grace show False by simp
        qed
        from r assms(3) True online grace ne online_succ[OF online assms(5)] same[of "?t + 1"]
        show ?thesis
          by (intro exI[of _ ?q] exI[of _ "?t + 1"]) simp
      qed
    qed
  qed
qed

lemma on_serial_scan:
  assumes len: "length (incoming_messages st0) = LINK_MAX_PLAYERS"
      "length (timeouts st0) = LINK_MAX_PLAYERS"
    and wfq: "\<forall>q \<in> set (incoming_messages st0). wf_queue q \<and> cap q \<noteq> 0"
    and nm: "\<forall>t \<in> set (timeouts st0). t \<noteq> 0x7FFFFFFF"
    and n: "n < LINK_MAX_PLAYERS" and d: "REG_SIOMULTI h n = LINK_DISCONNECTED"
  shows "\<exists>inc ts. for_each [0..<LINK_MAX_PLAYERS] (on_serial_slot c h) (st0, 0) =
            Some (st0\<lparr>incoming_messages := inc, timeouts := ts\<rparr>,
                  of_nat (length (filter (\<lambda>t. LINK_REMOTE_TIMEOUT_OFFLINE <s t) ts))) \<and>
          length inc = LINK_MAX_PLAYERS \<and> length ts = LINK_MAX_PLAYERS \<and>
          (\<forall>q \<in> set inc. wf_queue q \<and> cap q \<noteq> 0) \<and>
          (\<forall>t \<in> set ts. t \<noteq> 0x7FFFFFFF) \<and>
          (if LINK_REMOTE_TIMEOUT_OFFLINE <s timeouts st0 ! n
           then (if remote_timeout c \<le>s timeouts st0 ! n + 1
                 then inc ! n = cleared (incoming_messages st0 ! n) \<and>
                      ts ! n = LINK_REMOTE_TIMEOUT_OFFLINE
                 else inc ! n = incoming_messages st0 ! n \<and> ts ! n = timeouts st0 ! n + 1)
           else inc ! n = incoming_messages st0 ! n \<and> ts ! n = timeouts st0 ! n)"
proof -
  define post where "post = (\<lambda>q' t'.
     if LINK_REMOTE_TIMEOUT_OFFLINE <s timeouts st0 ! n
     then (if remote_timeout c \<le>s timeouts st0 ! n + 1
           then q' = cleared (incoming_messages st0 ! n) \<and> t' = LINK_REMOTE_TIMEOUT_OFFLINE
           else q' = incoming_messages st0 ! n \<and> t' = timeouts st0 ! n + 1)
     else q' = incoming_messages st0 ! n \<and> t' = timeouts st0 ! n)"
  define I where "I = (\<lambda>m (s :: LinkState \<times> s32). \<exists>inc ts.
     s = (st0\<lparr>incoming_messages := inc, timeouts := ts\<rparr>,
          of_nat (length (filter (\<lambda>t. LINK_REMOTE_TIMEOUT_OFFLINE <s t) (take m ts)))) \<and>
     length inc = LINK_MAX_PLAYERS \<and> length ts = LINK_MAX_PLAYERS \<and>
     (\<forall>q \<in> set inc. wf_queue q \<and> cap q \<noteq> 0) \<and>
     (\<forall>t \<in> set ts. t \<noteq> 0x7FFFFFFF) \<and>
     (\<forall>j. m \<le> j \<longrightarrow> j < LINK_MAX_PLAYERS \<longrightarrow>
          inc ! j = incoming_messages st0 ! j \<and> ts ! j = timeouts st0 ! j) \<and>
     (n < m \<longrightarrow> post (inc ! n) (ts ! n)))"
  have init: "I 0 (st0, 0)"
    unfolding I_def using len wfq nm
    by (intro exI[of _ "incoming_messages st0"] exI[of _ "timeouts st0"]) simp
  have step: "\<exists>s'. on_serial_slot c h m s = Some s' \<and> I (Suc m) s'"
    if "0 \<le> m" "m < LINK_MAX_PLAYERS" "I m s" for m s
  proof -
    from that(3) obtain inc ts where
      s: "s = (st0\<lparr>incoming_messages := inc, timeouts := ts\<rparr>,
          of_nat (length (filter (\<lambda>t. LINK_REMOTE_TIMEOUT_OFFLINE <s t) (take m ts))))"
      and l: "length inc = LINK_MAX_PLAYERS" "length ts = LINK_MAX_PLAYERS"
      and w: "\<forall>q \<in> set inc. wf_queue q \<and> cap q \<noteq> 0"
      and x: "\<forall>t \<in> set ts. t \<noteq> 0x7FFFFFFF"
      and u: "\<forall>j. m \<le> j \<longrightarrow> j < LINK_MAX_PLAYERS \<longrightarrow>
          inc ! j = incoming_messages st0 ! j \<and> ts ! j = timeouts st0 ! j"
      and p: "n < m \<longrightarrow> post (inc ! n) (ts ! n)"
      unfolding I_def by blast
    let ?st = "st0\<lparr>incoming_messages := inc, timeouts := ts\<rparr>"
    let ?k = "of_nat (length (filter (\<lambda>t. LINK_REMOTE_TIMEOUT_OFFLINE <s t) (take m ts))) :: s32"
    have pre: "m < length (incoming_messages ?st)" "m < length (timeouts ?st)"
      "wf_queue (incoming_messages ?st ! m)" "cap (incoming_messages ?st ! m) \<noteq> 0"
      "timeouts ?st ! m \<noteq> 0x7FFFFFFF"
      using that(2) l w x by (simp_all add: nth_mem)
    from on_serial_slot_total[OF pre, of c h ?k] obtain q' t' where
      r: "on_serial_slot c h m (?st, ?k) =
           Some (?st\<lparr>incoming_messages := (incoming_messages ?st)[m := q'],
                     timeouts := (timeouts ?st)[m := t']\<rparr>,
                 if LINK_REMOTE_TIMEOUT_OFFLINE <s t' then ?k + 1 else ?k)"
      and q': "wf_queue q'" "cap q' = cap (incoming_messages ?st ! m)" "t' \<noteq> 0x7FFFFFFF"
      and dd: "REG_SIOMULTI h m = LINK_DISCONNECTED \<longrightarrow>
            (if LINK_REMOTE_TIMEOUT_OFFLINE <s timeouts ?st ! m
             then (if remote_timeout c \<le>s timeouts ?st ! m + 1
                   then q' = cleared (incoming_messages ?st ! m) \<and> t' = LINK_REMOTE_TIMEOUT_OFFLINE
                   else q' = incoming_messages ?st ! m \<and> t' = timeouts ?st ! m + 1)
             else q' = incoming_messages ?st ! m \<and> t' = timeouts ?st ! m)"
      by blast
    let ?inc' = "inc[m := q']" and ?ts' = "ts[m := t']"
    have cnt: "(if LINK_REMOTE_TIMEOUT_OFFLINE <s t' then ?k + 1 else ?k) =
        of_nat (length (filter (\<lambda>t. LINK_REMOTE_TIMEOUT_OFFLINE <s t) (take (Suc m) ?ts')))"
      using that(2) l by (simp add: take_Suc_update)
    have w': "\<forall>q \<in> set ?inc'. wf_queue q \<and> cap q \<noteq> 0"
      using w q' pre(4) by (intro set_update_ball) simp_all
    have x': "\<forall>t \<in> set ?ts'. t \<noteq> 0x7FFFFFFF"
      using x q'(3) by (intro set_update_ball) simp_all
    have u': "\<forall>j. Suc m \<le> j \<longrightarrow> j < LINK_MAX_PLAYERS \<longrightarrow>
          ?inc' ! j = incoming_messages st0 ! j \<and> ?ts' ! j = timeouts st0 ! j"
      using u by simp
    have p': "n < Suc m \<longrightarrow> post (?inc' ! n) (?ts' ! n)"
    proof
      assume "n < Suc m"
      show "post (?inc' ! n) (?ts' ! n)"
      proof (cases "n = m")
        case True
        with u that(2) have "inc ! n = incoming_messages st0 ! n" "ts ! n = timeouts st0 ! n"
          by simp_all
        with dd d True l that(2) show ?thesis by (simp add: post_def)
      next
        case False
        with \<open>n < Suc m\<close> p show ?thesis by simp
      qed
    qed
    have "I (Suc m) (?st\<lparr>incoming_messages := ?inc', timeouts := ?ts'\<rparr>,
                 if LINK_REMOTE_TIMEOUT_OFFLINE <s t' then ?k + 1 else ?k)"
      unfolding I_def cnt using l w' x' u' p'
      by (intro exI[of _ ?inc'] exI[of _ ?ts']) simp
    with r s show ?thesis by simp
  qed
  from for_each_from[of I 0 "(st0, 0)" LINK_MAX_PLAYERS "on_serial_slot c h", OF init step]
  obtain s' where "for_each [0..<LINK_MAX_PLAYERS] (on_serial_slot c h) (st0, 0) = Some s'"
    "I LINK_MAX_PLAYERS s'" by auto
  then obtain inc ts where
    r: "for_each [0..<LINK_MAX_PLAYERS] (on_serial_slot c h) (st0, 0) =
            Some (st0\<lparr>incoming_messages := inc, timeouts := ts\<rparr>,
                  of_nat (length (filter (\<lambda>t. LINK_REMOTE_TIMEOUT_OFFLINE <s t) (take LINK_MAX_PLAYERS ts))))"
    and l: "length inc = LINK_MAX_PLAYERS" "length ts = LINK_MAX_PLAYERS"
    and w: "\<forall>q \<in> set inc. wf_queue q \<and> cap q \<noteq> 0" "\<forall>t \<in> set ts. t \<noteq> 0x7FFFFFFF"
    and p: "n < LINK_MAX_PLAYERS \<longrightarrow> post (inc ! n) (ts ! n)"
    unfolding I_def by blast
  from p n have "post (inc ! n) (ts ! n)" by simp
  with r l w show ?thesis
    unfolding post_def by (intro exI[of _ inc] exI[of _ ts]) simp
qed

lemma player_count_cast:
  assumes "x \<le> LINK_MAX_PLAYERS"
  shows "unat (ucast (of_nat x :: s32) :: u8) = x"
proof -
  from assms have "x = 0 \<or> x = 1 \<or> x = 2 \<or> x = 3 \<or> x = 4" by auto
  then show ?thesis by auto
qed

text \<open>
  One exchange-complete reaction that reads \<open>LINK_DISCONNECTED\<close> at slot \<open>n\<close>:
  afterwards \<open>player_count\<close> is the number of counters above the offline value.
\<close>

lemma lc_on_serial_silent_slot:
  assumes wf: "wf_conn c" and caps: "\<forall>q \<in> set (incoming_messages (state c)). cap q \<noteq> 0"
    and en: "is_enabled c" "\<not> is_locked (state c)"
    and hw: "lc_is_ready c h" "\<not> lc_has_error c h"
    and n: "n < LINK_MAX_PLAYERS" and d: "REG_SIOMULTI h n = LINK_DISCONNECTED"
  shows "\<exists>c' h'. lc_on_serial K c h = Some (c', h') \<and> wf_conn c' \<and>
     (\<forall>q \<in> set (incoming_messages (state c')). cap q \<noteq> 0) \<and>
     is_enabled c' \<and> \<not> is_locked (state c') \<and> remote_timeout c' = remote_timeout c \<and>
     unat (player_count (state c')) =
       length (filter (\<lambda>t. LINK_REMOTE_TIMEOUT_OFFLINE <s t) (timeouts (state c'))) \<and>
     (if LINK_REMOTE_TIMEOUT_OFFLINE <s timeouts (state c) ! n
      then (if remote_timeout c \<le>s timeouts (state c) ! n + 1
            then incoming_messages (state c') ! n = cleared (incoming_messages (state c) ! n) \<and>
                 timeouts (state c') ! n = LINK_REMOTE_TIMEOUT_OFFLINE
            else incoming_messages (state c') ! n = incoming_messages (state c) ! n \<and>
                 timeouts (state c') ! n = timeouts (state c) ! n + 1)
      else incoming_messages (state c') ! n = incoming_messages (state c) ! n \<and>
           timeouts (state c') ! n = timeouts (state c) ! n)"
proof -
  let ?st0 = "(state c)\<lparr>irq_flag := True, irq_timeout := 0\<rparr>"
  have pre: "length (incoming_messages ?st0) = LINK_MAX_PLAYERS"
    "length (timeouts ?st0) = LINK_MAX_PLAYERS"
    "\<forall>q \<in> set (incoming_messages ?st0). wf_queue q \<and> cap q \<noteq> 0"
    "\<forall>t \<in> set (timeouts ?st0). t \<noteq> 0x7FFFFFFF"
    using wf caps by (simp_all add: wf_conn_def)
  from on_serial_scan[OF pre n d, of c] obtain inc ts where
    loop: "for_each [0..<LINK_MAX_PLAYERS] (on_serial_slot c h) (?st0, 0) =
            Some (?st0\<lparr>incoming_messages := inc, timeouts := ts\<rparr>,
                  of_nat (length (filter (\<lambda>t. LINK_REMOTE_TIMEOUT_OFFLINE <s t) ts)))"
    and l: "length inc = LINK_MAX_PLAYERS" "length ts = LINK_MAX_PLAYERS"
    and w: "\<forall>q \<in> set inc. wf_queue q \<and> cap q \<noteq> 0" "\<forall>t \<in> set ts. t \<noteq> 0x7FFFFFFF"
    and p: "if LINK_REMOTE_TIMEOUT_OFFLINE <s timeouts ?st0 ! n
           then (if remote_timeout c \<le>s timeouts ?st0 ! n + 1
                 then inc ! n = cleared (incoming_messages ?st0 ! n) \<and>
                      ts ! n = LINK_REMOTE_TIMEOUT_OFFLINE
                 else inc ! n = incoming_messages ?st0 ! n \<and> ts ! n = timeouts ?st0 ! n + 1)
           else inc ! n = incoming_messages ?st0 ! n \<and> ts ! n = timeouts ?st0 ! n"
    by blast
  let ?k = "length (filter (\<lambda>t. LINK_REMOTE_TIMEOUT_OFFLINE <s t) ts)"
  define c2 where "c2 = c\<lparr>state := ?st0\<lparr>incoming_messages := inc, timeouts := ts,
        player_count := ucast (of_nat ?k :: s32),
        current_player_id := ucast (drop_bit LINK_BITS_PLAYER_ID
                               (REG_SIOCNT h AND push_bit LINK_BITS_PLAYER_ID 3))\<rparr>\<rparr>"
  have run: "lc_on_serial K c h =
      (if \<not> lc_is_master c2 h then lc_send_pending_data c2 h else Some (c2, h))"
    using en hw loop by (simp add: lc_on_serial_def lc_reset_if_needed_def Let_def c2_def)
  have "?k \<le> length ts" by (rule length_filter_le)
  with l have pc: "unat (player_count (state c2)) = ?k"
    by (simp add: c2_def player_count_cast)
  have wf2: "wf_conn c2" using wf l w by (simp add: wf_conn_def c2_def)
  from LINK_QUEUE_POP_items[of "outgoing_messages (state c2)"] wf2 obtain v q' where
    pop: "LINK_QUEUE_POP (outgoing_messages (state c2)) = Some (v, q')" and q': "wf_queue q'"
    by (auto simp: wf_conn_def)
  let ?c3 = "c2\<lparr>state := (state c2)\<lparr>outgoing_messages := q'\<rparr>\<rparr>"
  have spd: "lc_send_pending_data c2 h = Some (?c3, lc_transfer ?c3 h v)"
    using pop by (simp add: lc_send_pending_data_def Let_def)
  have wf3: "wf_conn ?c3" using wf2 q' by (simp add: wf_conn_def)
  have props: "incoming_messages (state c2) = inc" "timeouts (state c2) = ts"
    "is_enabled c2" "\<not> is_locked (state c2)" "remote_timeout c2 = remote_timeout c"
    using en by (simp_all add: c2_def)
  show ?thesis
  proof (cases "lc_is_master c2 h")
    case True
    with run have "lc_on_serial K c h = Some (c2, h)" by simp
    with wf2 pc props w(1) p show ?thesis
      by (intro exI[of _ c2] exI[of _ h]) simp
  next
    case False
    with run spd have "lc_on_serial K c h = Some (?c3, lc_transfer ?c3 h v)" by simp
    with wf3 pc props w(1) p show ?thesis
      by (intro exI[of _ ?c3] exI[of _ "lc_transfer ?c3 h v"]) simp
  qed
qed

lemma exchanges_silent:
  assumes "hs \<noteq> []" "wf_conn c" "\<forall>q \<in> set (incoming_messages (state c)). cap q \<noteq> 0"
    "is_enabled c" "\<not> is_locked (state c)" "n < LINK_MAX_PLAYERS"
    "unat (remote_timeout c) < 2 ^ 31"
    "timeouts (state c) ! n = of_nat t0"
    "t0 + length hs \<le> unat (remote_timeout c)"
    "\<forall>h \<in> set hs. isBitHigh h LINK_BIT_READY \<and> \<not> isBitHigh h LINK_BIT_ERROR \<and>
        REG_SIOMULTI h n = LINK_DISCONNECTED"
  shows "\<exists>c'. exchanges K hs c = Some c' \<and>
     unat (player_count (state c')) =
       length (filter (\<lambda>t. LINK_REMOTE_TIMEOUT_OFFLINE <s t) (timeouts (state c'))) \<and>
     (if t0 + length hs < unat (remote_timeout c)
      then timeouts (state c') ! n = of_nat (t0 + length hs) \<and>
           LINK_REMOTE_TIMEOUT_OFFLINE <s timeouts (state c') ! n \<and>
           incoming_messages (state c') ! n = incoming_messages (state c) ! n
      else timeouts (state c') ! n = LINK_REMOTE_TIMEOUT_OFFLINE \<and>
           incoming_messages (state c') ! n = cleared (incoming_messages (state c) ! n))"
  using assms
proof (induction hs arbitrary: c t0)
  case Nil
  then show ?case by simp
next
  case (Cons h hs)
  let ?rt = "unat (remote_timeout c)"
  from Cons.prems(9) have b: "Suc t0 \<le> ?rt" by simp
  with Cons.prems(7) have small: "Suc t0 < 2 ^ 31" "t0 < 2 ^ 31" by simp_all
  have on: "LINK_REMOTE_TIMEOUT_OFFLINE <s timeouts (state c) ! n"
    using offline_less_count[OF small(2)] Cons.prems(8) by simp
  have reach: "remote_timeout c \<le>s timeouts (state c) ! n + 1 \<longleftrightarrow> ?rt \<le> Suc t0"
    using timeout_reached_iff[OF Cons.prems(7) small(1)] Cons.prems(8) by simp
  have hh: "lc_is_ready c h" "\<not> lc_has_error c h" "REG_SIOMULTI h n = LINK_DISCONNECTED"
    using Cons.prems(10) by (simp_all add: lc_is_ready_def lc_has_error_def)
  from lc_on_serial_silent_slot[OF Cons.prems(2,3,4,5) hh(1,2) Cons.prems(6) hh(3), of K]
  obtain c1 h1 where
    s: "lc_on_serial K c h = Some (c1, h1)" and
    i: "wf_conn c1" "\<forall>q \<in> set (incoming_messages (state c1)). cap q \<noteq> 0"
       "is_enabled c1" "\<not> is_locked (state c1)" "remote_timeout c1 = remote_timeout c" and
    pc: "unat (player_count (state c1)) =
       length (filter (\<lambda>t. LINK_REMOTE_TIMEOUT_OFFLINE <s t) (timeouts (state c1)))" and
    r: "if ?rt \<le> Suc t0
        then incoming_messages (state c1) ! n = cleared (incoming_messages (state c) ! n) \<and>
             timeouts (state c1) ! n = LINK_REMOTE_TIMEOUT_OFFLINE
        else incoming_messages (state c1) ! n = incoming_messages (state c) ! n \<and>
             timeouts (state c1) ! n = timeouts (state c) ! n + 1"
    using on reach by auto
  show ?case
  proof (cases "hs = []")
    case True
    show ?thesis
    proof (cases "?rt \<le> Suc t0")
      case evict: True
      with r s pc True show ?thesis by simp
    next
      case grace: False
      then have "Suc t0 < 2 ^ 31" using Cons.prems(7) by simp
      from offline_less_count[OF this]
      have "LINK_REMOTE_TIMEOUT_OFFLINE <s (of_nat t0 + 1 :: s32)" by (simp add: add.commute)
      with grace r s pc True Cons.prems(8) show ?thesis by simp
    qed
  next
    case False
    with Cons.prems(9) have grace: "\<not> ?rt \<le> Suc t0" by (cases hs) simp_all
    with r have c1: "incoming_messages (state c1) ! n = incoming_messages (state c) ! n"
      "timeouts (state c1) ! n = of_nat (Suc t0)"
      using Cons.prems(8) by simp_all
    have "\<exists>c'. exchanges K hs c1 = Some c' \<and>
       unat (player_count (state c')) =
         length (filter (\<lambda>t. LINK_REMOTE_TIMEOUT_OFFLINE <s t) (timeouts (state c'))) \<and>
       (if Suc t0 + length hs < unat (remote_timeout c1)
        then timeouts (state c') ! n = of_nat (Suc t0 + length hs) \<and>
             LINK_REMOTE_TIMEOUT_OFFLINE <s timeouts (state c') ! n \<and>
             incoming_messages (state c') ! n = incoming_messages (state c1) ! n
        else timeouts (state c') ! n = LINK_REMOTE_TIMEOUT_OFFLINE \<and>
             incoming_messages (state c') ! n = cleared (incoming_messages (state c1) ! n))"
      using False i c1(2) Cons.prems(6,7,9,10) by (intro Cons.IH) simp_all
    then obtain c' where e: "exchanges K hs c1 = Some c'"
      and pc': "unat (player_count (state c')) =
         length (filter (\<lambda>t. LINK_REMOTE_TIMEOUT_OFFLINE <s t) (timeouts (state c')))"
      and rr: "if Suc t0 + length hs < unat (remote_timeout c1)
        then timeouts (state c') ! n = of_nat (Suc t0 + length hs) \<and>
             LINK_REMOTE_TIMEOUT_OFFLINE <s timeouts (state c') ! n \<and>
             incoming_messages (state c') ! n = incoming_messages (state c1) ! n
        else timeouts (state c') ! n = LINK_REMOTE_TIMEOUT_OFFLINE \<and>
             incoming_messages (state c') ! n = cleared (incoming_messages (state c1) ! n)"
      by blast
    have "exchanges K (h # hs) c = Some c'" using s e by simp
    moreover have "Suc t0 + length hs = t0 + length (h # hs)" by simp
    ultimately show ?thesis using pc' rr c1(1) i(5)
      by (intro exI[of _ c']) (simp only: simp_thms)
  qed
qed

section \<open>The concrete program\<close>

lemma ex_queue_wf: "wf_queue (ex_queue bs)"
  by (auto simp: wf_queue_def ex_queue_def word_neq_0_conv)

lemma ex_queue_items: "u16q_items (ex_queue bs) = []"
  by (simp add: u16q_items_def ex_queue_def ring_def)

lemma ex_queue_cleared: "cleared (ex_queue bs) = ex_queue bs"
  by (simp add: cleared_def ex_queue_items) (simp add: ex_queue_def)

lemma ex_conn_wf: "wf_conn ((ex_conn bs)\<lparr>timeout := t, remote_timeout := r\<rparr>)"
  by (simp add: wf_conn_def ex_conn_def ex_queue_wf replicate4)

lemma ex_conn_activated:
  "\<exists>c0 h0 h1. lc_init ex_K ((ex_settings bs)\<lparr>cfg_timeout := t, cfg_remote_timeout := r\<rparr>)
                 (\<lambda>n. replicate (unat bs) 7) ex_hw = Some (c0, h0) \<and>
     lc_activate ex_K c0 h0 = Some ((ex_conn bs)\<lparr>timeout := t, remote_timeout := r\<rparr>, h1)"
proof -
  let ?c0 = "(ex_conn bs)\<lparr>timeout := t, remote_timeout := r, is_enabled := False,
     state := (state (ex_conn bs))\<lparr>timeouts := replicate LINK_MAX_PLAYERS 0\<rparr>\<rparr>"
  have wf0: "wf_conn ?c0" by (simp add: wf_conn_def ex_conn_def ex_queue_wf replicate4)
  obtain h0 where h0: "lc_stop ex_K ?c0 ex_hw = Some h0"
    using lc_stop_Some[of ?c0 ex_K ex_hw] by (auto simp: ex_conn_def)
  have init: "lc_init ex_K ((ex_settings bs)\<lparr>cfg_timeout := t, cfg_remote_timeout := r\<rparr>)
                 (\<lambda>n. replicate (unat bs) 7) ex_hw = Some (?c0, h0)"
    using h0
    by (simp add: lc_init_def ex_settings_def linkstate_init_def u16q_init_def upt4 replicate4
        ex_conn_def ex_queue_def Let_def lc_stop_def lc_stop_timer_def)
  from lc_reset_wf[OF wf0, of ex_K h0] obtain c1 h1 where
    r: "lc_reset_state ?c0 = Some c1" "lc_reset ex_K ?c0 h0 = Some (c1, h1)" by blast
  from r(1) lc_reset_state_wf[OF wf0] have "c1\<lparr>is_enabled := True\<rparr> = (ex_conn bs)\<lparr>timeout := t, remote_timeout := r\<rparr>"
    by (simp add: ex_conn_def ex_queue_cleared replicate4)
  with r(2) have "lc_activate ex_K ?c0 h0 = Some ((ex_conn bs)\<lparr>timeout := t, remote_timeout := r\<rparr>, h1)"
    by (simp add: lc_activate_def)
  with init show ?thesis by blast
qed

lemma ex_conn_reachable:
  "reachable ex_K ((ex_settings bs)\<lparr>cfg_timeout := t, cfg_remote_timeout := r\<rparr>)
     ((ex_conn bs)\<lparr>timeout := t, remote_timeout := r\<rparr>)"
proof -
  from ex_conn_activated[where bs=bs and t=t and r=r] obtain c0 h0 h1 where
    i: "lc_init ex_K ((ex_settings bs)\<lparr>cfg_timeout := t, cfg_remote_timeout := r\<rparr>)
                 (\<lambda>n. replicate (unat bs) 7) ex_hw = Some (c0, h0)"
    and a: "lc_activate ex_K c0 h0 = Some ((ex_conn bs)\<lparr>timeout := t, remote_timeout := r\<rparr>, h1)"
    by blast
  have "reachable ex_K ((ex_settings bs)\<lparr>cfg_timeout := t, cfg_remote_timeout := r\<rparr>) c0"
    by (rule r_init[OF i]) (simp add: ex_settings_def)
  then show ?thesis by (rule r_activate[OF _ a])
qed

lemma ex_queue_2: "ex_queue 2 = \<lparr>buf = [7, 7], cap = 2, len = 0, qi = 0, qj = 0\<rparr>"
proof -
  have "replicate 2 (7::u16) = [7, 7]" by (simp add: numeral_2_eq_2)
  then show ?thesis by (simp add: ex_queue_def)
qed

lemma ex_busy_wf: "wf_conn ex_busy"
proof -
  have "wf_queue \<lparr>buf = [0x11, 7], cap = 2, len = 1, qi = 0, qj = 1\<rparr>"
    "wf_queue \<lparr>buf = [5, 6], cap = 2, len = 1, qi = 1, qj = 0\<rparr>"
    by (simp_all add: wf_queue_def)
  then show ?thesis by (simp add: wf_conn_def ex_busy_def ex_conn_def ex_queue_wf)
qed

lemma ex_exchange_simps:
  "lc_is_ready c (ex_exchange 0 ws)" "\<not> lc_has_error c (ex_exchange 0 ws)"
  "lc_is_master c (ex_exchange 0 ws)"
  "REG_SIOMULTI (ex_exchange r ws) n = (if n < length ws then ws ! n else LINK_DISCONNECTED)"
  "REG_SIOCNT (ex_exchange 0 ws) = 8"
  by (simp_all add: ex_exchange_def ex_hw_def lc_is_ready_def lc_has_error_def lc_is_master_def
      isBitHigh_bit bit_exp_iff possible_bit_word)

lemma ex_serial_1:
  "lc_on_serial ex_K (ex_conn 2) (ex_exchange 0 [0x11, 0x22]) =
   Some ((ex_conn 2)\<lparr>state := (state (ex_conn 2))
     \<lparr>player_count := 2,
      incoming_messages := [ex_queue 2, \<lparr>buf = [0x22, 7], cap = 2, len = 1, qi = 0, qj = 1\<rparr>,
                            ex_queue 2, ex_queue 2],
      timeouts := [0, 0, LINK_REMOTE_TIMEOUT_OFFLINE, LINK_REMOTE_TIMEOUT_OFFLINE],
      irq_flag := True\<rparr>\<rparr>, ex_exchange 0 [0x11, 0x22])"
  by (simp add: lc_on_serial_def lc_reset_if_needed_def ex_exchange_simps upt4 on_serial_slot_def
      Let_def ex_conn_def ex_queue_2 u16q_push_def word_le_nat_alt replicate4)

lemma ex_send_123:
  "lc_send_all (ex_conn 2) [1, 2, 3] =
     Some ((ex_conn 2)\<lparr>state := (state (ex_conn 2))\<lparr>outgoing_messages :=
       \<lparr>buf = [3, 2], cap = 2, len = 3, qi = 0, qj = 1\<rparr>\<rparr>\<rparr>)"
  by (simp add: lc_send_def ex_conn_def ex_queue_2 u16q_push_def Let_def word_le_nat_alt)

lemma ex_serial_gap:
  "lc_on_serial ex_K (ex_conn 2) (ex_exchange 0 [0x11, LINK_DISCONNECTED, 0x33]) =
   Some (ex_gap, ex_exchange 0 [0x11, LINK_DISCONNECTED, 0x33])"
  by (simp add: lc_on_serial_def lc_reset_if_needed_def ex_exchange_simps upt4 on_serial_slot_def
      Let_def ex_conn_def ex_gap_def ex_queue_2 u16q_push_def word_le_nat_alt replicate4)

lemma ex_pair_reached:
  "lc_on_serial ex_K ((ex_conn 2)\<lparr>remote_timeout := r\<rparr>) (ex_exchange 0 [0x11, 0x22]) =
     Some (ex_pair\<lparr>remote_timeout := r\<rparr>, ex_exchange 0 [0x11, 0x22])"
  by (simp add: lc_on_serial_def lc_reset_if_needed_def ex_exchange_simps upt4 on_serial_slot_def
      Let_def ex_conn_def ex_pair_def ex_queue_2 u16q_push_def word_le_nat_alt replicate4)

lemma ex_pair_wf: "wf_conn (ex_pair\<lparr>remote_timeout := r\<rparr>)"
proof -
  have "wf_queue \<lparr>buf = [0x22, 7], cap = 2, len = 1, qi = 0, qj = 1\<rparr>"
    by (simp add: wf_queue_def)
  then show ?thesis by (simp add: wf_conn_def ex_pair_def ex_conn_def ex_queue_wf)
qed

lemma ex_pair_slot1:
  "u16q_items (incoming_messages (state (ex_pair\<lparr>remote_timeout := r\<rparr>)) ! 1) = [0x22]"
  "timeouts (state (ex_pair\<lparr>remote_timeout := r\<rparr>)) ! 1 = 0"
  by (simp_all add: ex_pair_def u16q_items_def ring_def)

section \<open>The claims\<close>

subsection \<open>Overflowing a queue\<close>

text \<open>
  Claim C1 says that a queue of capacity \<open>C\<close> keeps the \<open>C\<close> most recent values,
  in order, when more than \<open>C\<close> are pushed. The code at capacity 2, after
  \<open>lc_send\<close> of 1, 2 and 3 on a fresh connection: the outgoing queue holds only
  the value 3; the first pop delivers 3 and the second \<open>LINK_NO_DATA\<close>, where
  the claim has 2 and then 3. (\<open>lc_send\<close> calls \<open>u16q_push\<close>, which never evicts;
  \<open>lc_push\<close>, which was to evict, is not called.)
\<close>

theorem lc_send_overflow_keeps_only_newest:
  "\<exists>c q1 q2. lc_send_all (ex_conn 2) [1, 2, 3] = Some c \<and>
     buffer_size c = 2 \<and>
     u16q_items (outgoing_messages (state c)) = [3] \<and>
     LINK_QUEUE_POP (outgoing_messages (state c)) = Some (3, q1) \<and>
     LINK_QUEUE_POP q1 = Some (LINK_NO_DATA, q2)"
proof -
  let ?q = "\<lparr>buf = [3, 2], cap = 2, len = 3, qi = 0, qj = 1\<rparr> :: U16Queue"
  let ?q1 = "\<lparr>buf = [3, 2], cap = 2, len = 2, qi = 1, qj = 1\<rparr> :: U16Queue"
  let ?c = "(ex_conn 2)\<lparr>state := (state (ex_conn 2))\<lparr>outgoing_messages := ?q\<rparr>\<rparr>"
  have b: "buffer_size ?c = 2" by (simp add: ex_conn_def)
  have i: "u16q_items (outgoing_messages (state ?c)) = [3]"
    by (simp add: u16q_items_def ring_def)
  have p1: "LINK_QUEUE_POP (outgoing_messages (state ?c)) = Some (3, ?q1)"
    by (simp add: LINK_QUEUE_POP_def u16q_empty_def u16q_front_def u16q_pop_def Let_def
        word_le_nat_alt)
  have p2: "LINK_QUEUE_POP ?q1 = Some (LINK_NO_DATA, ?q1)"
    by (simp add: LINK_QUEUE_POP_def u16q_empty_def)
  from ex_send_123 b i p1 p2 show ?thesis by blast
qed

subsection \<open>Reading a slot beyond the player count\<close>

text \<open>
  Claim C2 says that \<open>lc_read_message\<close> with a slot at or beyond \<open>player_count\<close>
  returns \<open>LINK_NO_DATA\<close> and changes nothing. The code on \<open>ex_gap\<close>, the
  connection after one exchange in which slots 0 and 2 sent a value and slot 1
  was absent (lemma \<open>ex_serial_gap\<close>): \<open>player_count\<close> is 2, \<open>lc_has_message\<close> for
  slot 2 answers no (it checks the slot against \<open>player_count\<close>), but
  \<open>lc_read_message\<close> for slot 2, which has no such check, returns the value
  \<open>0x33\<close> and removes it from the queue.
\<close>

theorem lc_read_message_beyond_player_count_pops:
  "\<exists>c'. player_count (state ex_gap) = 2 \<and>
     lc_has_message ex_gap 2 = Some (False, ex_gap) \<and>
     lc_read_message ex_gap 2 = Some (0x33, c') \<and>
     u16q_items (incoming_messages (state ex_gap) ! 2) = [0x33] \<and>
     u16q_items (incoming_messages (state c') ! 2) = [] \<and>
     c' \<noteq> ex_gap"
proof -
  let ?c' = "ex_gap\<lparr>state := (state ex_gap)\<lparr>incoming_messages := [ex_queue 2, ex_queue 2,
                            \<lparr>buf = [0x33, 7], cap = 2, len = 0, qi = 1, qj = 1\<rparr>, ex_queue 2]\<rparr>\<rparr>"
  have h: "lc_has_message ex_gap 2 = Some (False, ex_gap)"
    by (simp add: lc_has_message_def linkstate_has_message_def ex_gap_def)
  have r: "lc_read_message ex_gap 2 = Some (0x33, ?c')"
    by (simp add: lc_read_message_def linkstate_read_message_def LINK_QUEUE_POP_def u16q_empty_def
        u16q_front_def u16q_pop_def Let_def ex_gap_def ex_conn_def word_le_nat_alt)
  have i: "u16q_items (incoming_messages (state ex_gap) ! 2) = [0x33]"
    "u16q_items (incoming_messages (state ?c') ! 2) = []"
    by (simp_all add: u16q_items_def ring_def ex_gap_def)
  then have ne: "?c' \<noteq> ex_gap" by (metis list.distinct(1))
  have p: "player_count (state ex_gap) = 2" by (simp add: ex_gap_def)
  from h r i ne p show ?thesis by blast
qed

subsection \<open>The full reset\<close>

text \<open>
  Claim C3. On a well-formed connection the full reset \<open>lc_reset\<close> returns, and
  the state it leaves has \<open>player_count = 0\<close>, \<open>current_player_id = 0\<close>, four
  incoming queues and an outgoing queue that are all empty (by the emptiness
  test of the header, and by their contents), every timeout counter at the
  offline value, the activity flag \<open>irq_flag\<close> clear and the silence counter
  \<open>irq_timeout\<close> at 0. The three ways into a full reset end in that same state:
  \<open>lc_activate\<close> (which then sets \<open>is_enabled\<close>), \<open>lc_on_timer\<close> when the
  silence timeout is reached, and \<open>lc_on_serial\<close> when the hardware is not ready
  or reports an error.
\<close>

theorem full_reset_postcondition:
  assumes "wf_conn c"
  shows "\<exists>c' h'. lc_reset K c h = Some (c', h') \<and>
     player_count (state c') = 0 \<and> current_player_id (state c') = 0 \<and>
     length (incoming_messages (state c')) = LINK_MAX_PLAYERS \<and>
     (\<forall>q \<in> set (incoming_messages (state c')). u16q_empty q \<and> u16q_items q = []) \<and>
     u16q_empty (outgoing_messages (state c')) \<and>
     u16q_items (outgoing_messages (state c')) = [] \<and>
     timeouts (state c') = replicate LINK_MAX_PLAYERS LINK_REMOTE_TIMEOUT_OFFLINE \<and>
     \<not> irq_flag (state c') \<and> irq_timeout (state c') = 0 \<and>
     lc_activate K c h = Some (c'\<lparr>is_enabled := True\<rparr>, h') \<and>
     (is_enabled c \<and> \<not> is_locked (state c) \<and> lc_did_timeout c \<longrightarrow>
        lc_on_timer K c h = Some (c', h')) \<and>
     (is_enabled c \<and> \<not> is_locked (state c) \<and> (\<not> lc_is_ready c h \<or> lc_has_error c h) \<longrightarrow>
        lc_on_serial K c h = Some (c', h'))"
proof -
  from lc_reset_wf[OF assms, of K h] obtain c' h' where
    rs: "lc_reset_state c = Some c'" and r: "lc_reset K c h = Some (c', h')" by blast
  note post = lc_reset_state_post[OF assms rs]
  have "lc_activate K c h = Some (c'\<lparr>is_enabled := True\<rparr>, h')"
    using r by (simp add: lc_activate_def)
  moreover have "lc_on_timer K c h = Some (c', h')"
    if "is_enabled c \<and> \<not> is_locked (state c) \<and> lc_did_timeout c"
    using that r by (simp add: lc_on_timer_def)
  moreover have "lc_on_serial K c h = Some (c', h')"
    if "is_enabled c \<and> \<not> is_locked (state c) \<and> (\<not> lc_is_ready c h \<or> lc_has_error c h)"
    using that r by (auto simp: lc_on_serial_def lc_reset_if_needed_def)
  ultimately show ?thesis using r post(1-9) by blast
qed

text \<open>The instance: a connected, timed-out connection with queued values, at a pace reaction.\<close>

theorem full_reset_postcondition_witness:
  "wf_conn ex_busy \<and>
   (\<exists>c' h'. lc_on_timer ex_K ex_busy ex_hw = Some (c', h') \<and>
      player_count (state c') = 0 \<and> current_player_id (state c') = 0 \<and>
      u16q_items (outgoing_messages (state c')) = [] \<and>
      timeouts (state c') = replicate LINK_MAX_PLAYERS LINK_REMOTE_TIMEOUT_OFFLINE \<and>
      irq_timeout (state c') = 0)"
proof -
  have "is_enabled ex_busy \<and> \<not> is_locked (state ex_busy) \<and> lc_did_timeout ex_busy"
    by (simp add: ex_busy_def ex_conn_def lc_did_timeout_def)
  with full_reset_postcondition[OF ex_busy_wf, of ex_K ex_hw] ex_busy_wf
  show ?thesis by auto
qed

subsection \<open>The grace period of a silent slot\<close>

text \<open>
  Claim C4, amended. Let the remote timeout be at most \<open>INT_MAX\<close> (the counter is
  compared with \<open>(int)remote_timeout\<close>), and take a well-formed, enabled,
  unguarded connection whose queues have cells and whose counter for slot \<open>n\<close>
  holds a count \<open>t0\<close> (it is not offline). Let one or more exchange-complete
  reactions in a row find the hardware ready and without error and read
  \<open>LINK_DISCONNECTED\<close> at slot \<open>n\<close>. After every such run \<open>player_count\<close> is the
  number of slots whose counter is not offline. As long as the count of silent
  exchanges, \<open>t0\<close> plus the length of the run, stays below the remote timeout,
  the counter holds that count, so the slot is counted, and the slot's incoming
  queue is as it was. On the exchange that brings the count to exactly the
  remote timeout the counter is set to the offline value, so the slot is not
  counted, and its incoming queue is empty.
\<close>

theorem silent_slot_grace_then_eviction:
  assumes "wf_conn c" "\<forall>q \<in> set (incoming_messages (state c)). cap q \<noteq> 0"
    and "is_enabled c" "\<not> is_locked (state c)"
    and "n < LINK_MAX_PLAYERS"
    and "unat (remote_timeout c) < 2 ^ 31"
    and "timeouts (state c) ! n = of_nat t0"
    and "hs \<noteq> []" "t0 + length hs \<le> unat (remote_timeout c)"
    and "\<forall>h \<in> set hs. lc_is_ready c h \<and> \<not> lc_has_error c h \<and>
           REG_SIOMULTI h n = LINK_DISCONNECTED"
  shows "\<exists>c'. exchanges K hs c = Some c' \<and>
     unat (player_count (state c')) =
       length (filter (\<lambda>t. LINK_REMOTE_TIMEOUT_OFFLINE <s t) (timeouts (state c'))) \<and>
     (if t0 + length hs < unat (remote_timeout c)
      then timeouts (state c') ! n = of_nat (t0 + length hs) \<and>
           LINK_REMOTE_TIMEOUT_OFFLINE <s timeouts (state c') ! n \<and>
           incoming_messages (state c') ! n = incoming_messages (state c) ! n
      else timeouts (state c') ! n = LINK_REMOTE_TIMEOUT_OFFLINE \<and>
           u16q_empty (incoming_messages (state c') ! n) \<and>
           u16q_items (incoming_messages (state c') ! n) = [])"
proof -
  have h: "\<forall>h \<in> set hs. isBitHigh h LINK_BIT_READY \<and> \<not> isBitHigh h LINK_BIT_ERROR \<and>
        REG_SIOMULTI h n = LINK_DISCONNECTED"
    using assms(10) by (simp add: lc_is_ready_def lc_has_error_def)
  have "wf_queue (incoming_messages (state c) ! n)"
    using assms(1,5) by (simp add: wf_conn_def)
  note cl = cleared_props(2,3)[OF this]
  from exchanges_silent[OF assms(8,1,2,3,4,5,6,7,9) h, of K] cl show ?thesis
    by (auto split: if_splits)
qed

text \<open>
  The instance: remote timeout 5, slot 1 holding one value and a counter of 0;
  four silent exchanges leave the counter at 4 and the value queued, the fifth
  evicts the slot.
\<close>

theorem silent_slot_grace_then_eviction_witness:
  "wf_conn ex_pair \<and> remote_timeout ex_pair = 5 \<and>
   u16q_items (incoming_messages (state ex_pair) ! 1) = [0x22] \<and>
   (\<exists>c'. exchanges ex_K (replicate 4 (ex_exchange 0 [0x11])) ex_pair = Some c' \<and>
      timeouts (state c') ! 1 = 4 \<and>
      u16q_items (incoming_messages (state c') ! 1) = [0x22]) \<and>
   (\<exists>c'. exchanges ex_K (replicate 5 (ex_exchange 0 [0x11])) ex_pair = Some c' \<and>
      timeouts (state c') ! 1 = LINK_REMOTE_TIMEOUT_OFFLINE \<and>
      u16q_items (incoming_messages (state c') ! 1) = [])"
proof -
  have w: "wf_conn ex_pair" using ex_pair_wf[of 5] by (simp add: ex_pair_def ex_conn_def)
  have p: "\<forall>q \<in> set (incoming_messages (state ex_pair)). cap q \<noteq> 0"
    "is_enabled ex_pair" "\<not> is_locked (state ex_pair)" "(1::nat) < LINK_MAX_PLAYERS"
    "unat (remote_timeout ex_pair) < 2 ^ 31"
    "timeouts (state ex_pair) ! 1 = of_nat 0"
    by (simp_all add: ex_pair_def ex_conn_def ex_queue_def)
  have h: "\<forall>h \<in> set (replicate k (ex_exchange 0 [0x11])).
      lc_is_ready ex_pair h \<and> \<not> lc_has_error ex_pair h \<and> REG_SIOMULTI h 1 = LINK_DISCONNECTED" for k
    by (simp add: ex_exchange_simps)
  have rt: "remote_timeout ex_pair = 5" by (simp add: ex_pair_def ex_conn_def)
  have i: "u16q_items (incoming_messages (state ex_pair) ! 1) = [0x22]"
    using ex_pair_slot1(1)[of 5] by (simp add: ex_pair_def ex_conn_def)
  from silent_slot_grace_then_eviction[OF w p _ _ h[of 4], where K = ex_K]
    silent_slot_grace_then_eviction[OF w p _ _ h[of 5], where K = ex_K] w rt i
  show ?thesis by auto
qed

text \<open>
  Claim C4 as stated fails for a remote timeout above \<open>INT_MAX\<close>: with
  \<open>remote_timeout = 0x80000000\<close>, which reads as a negative \<open>int\<close>, the first
  silent exchange of a slot (1 is less than the remote timeout) already evicts
  it: the counter is offline, the queue is cleared and the player count drops
  from 2 to 1.
\<close>

theorem remote_timeout_above_int_max_evicts_at_once:
  "\<exists>c c'. exchanges ex_K [ex_exchange 0 [0x11, 0x22]] ((ex_conn 2)\<lparr>remote_timeout := 0x80000000\<rparr>) = Some c \<and>
     timeouts (state c) ! 1 = 0 \<and> player_count (state c) = 2 \<and>
     u16q_items (incoming_messages (state c) ! 1) = [0x22] \<and>
     1 < unat (remote_timeout c) \<and>
     exchanges ex_K [ex_exchange 0 [0x11]] c = Some c' \<and>
     timeouts (state c') ! 1 = LINK_REMOTE_TIMEOUT_OFFLINE \<and>
     u16q_items (incoming_messages (state c') ! 1) = [] \<and>
     player_count (state c') = 1"
proof -
  let ?c = "ex_pair\<lparr>remote_timeout := 0x80000000\<rparr>"
  let ?q = "\<lparr>buf = [0x22, 7], cap = 2, len = 1, qi = 0, qj = 1\<rparr> :: U16Queue"
  let ?c' = "?c\<lparr>state := (state ?c)\<lparr>player_count := 1,
      incoming_messages := [ex_queue 2, cleared ?q, ex_queue 2, ex_queue 2],
      timeouts := [0, LINK_REMOTE_TIMEOUT_OFFLINE, LINK_REMOTE_TIMEOUT_OFFLINE,
                   LINK_REMOTE_TIMEOUT_OFFLINE]\<rparr>\<rparr>"
  have wq: "wf_queue ?q" by (simp add: wf_queue_def)
  have a: "exchanges ex_K [ex_exchange 0 [0x11, 0x22]] ((ex_conn 2)\<lparr>remote_timeout := 0x80000000\<rparr>) = Some ?c"
    by (simp add: ex_pair_reached)
  have sg: "(0x80000000 :: u32) \<le>s 1" "LINK_REMOTE_TIMEOUT_OFFLINE <s (0 :: s32)"
    "\<not> LINK_REMOTE_TIMEOUT_OFFLINE <s (LINK_REMOTE_TIMEOUT_OFFLINE :: s32)"
    by (simp_all add: word_sle_eq word_sless_alt)
  have b: "exchanges ex_K [ex_exchange 0 [0x11]] ?c = Some ?c'"
    by (simp add: lc_on_serial_def lc_reset_if_needed_def ex_exchange_simps upt4 on_serial_slot_def
      Let_def ex_conn_def ex_pair_def ex_queue_2 word_le_nat_alt sg
      LINK_QUEUE_CLEAR_cleared[OF wq])
  have i: "u16q_items (incoming_messages (state ?c') ! 1) = []"
    using cleared_props(3)[OF wq] by simp
  have r: "1 < unat (remote_timeout ?c)" by simp
  have p: "player_count (state ?c) = 2" "player_count (state ?c') = 1"
    "timeouts (state ?c') ! 1 = LINK_REMOTE_TIMEOUT_OFFLINE"
    by (simp_all add: ex_pair_def)
  from a b i r p ex_pair_slot1[of "0x80000000"] show ?thesis by blast
qed

subsection \<open>The watchdog\<close>

text \<open>
  Claim C5, amended. On an enabled, unguarded connection, let \<open>n\<close> tick
  reactions run with no exchange-complete or pace reaction in between. If the
  ticks that found the activity flag clear (all \<open>n\<close> of them, or \<open>n - 1\<close> when the
  flag was set at the start: the first tick after a successful exchange only
  clears it) bring the silence counter to the silence timeout or beyond,
  without wrapping the 32-bit counter, then the next pace reaction is a full
  reset: it returns, and it starts no transfer.
\<close>

theorem silence_timeout_forces_reset:
  assumes "wf_conn c" "is_enabled c" "\<not> is_locked (state c)"
    and "unat (timeout c) \<le>
           unat (irq_timeout (state c)) + (n - (if irq_flag (state c) then 1 else 0))"
    and "unat (irq_timeout (state c)) + n < 2 ^ 32"
  shows "lc_on_timer K ((lc_on_vblank ^^ n) c) h = lc_reset K ((lc_on_vblank ^^ n) c) h \<and>
     (\<exists>c' h'. lc_reset K ((lc_on_vblank ^^ n) c) h = Some (c', h') \<and>
        lc_reset_state ((lc_on_vblank ^^ n) c) = Some c' \<and>
        \<not> lc_is_sending c' h' \<and> REG_SIOMLT_SEND h' = LINK_NO_DATA)"
proof -
  let ?k = "n - (if irq_flag (state c) then 1 else 0)"
  let ?c1 = "(lc_on_vblank ^^ n) c"
  note v = lc_on_vblank_counted[OF assms(2,3), of n]
  have en: "is_enabled ?c1" "\<not> is_locked (state ?c1)" "timeout ?c1 = timeout c"
    using assms(2,3) by (simp_all add: v)
  have wf: "wf_conn ?c1" using assms(1) by (simp add: v wf_conn_def)
  have "unat (irq_timeout (state c)) + ?k < 2 ^ 32" using assms(5) by simp
  then have "unat (irq_timeout (state c) + of_nat ?k) = unat (irq_timeout (state c)) + ?k"
    by (simp add: unat_word_ariths unat_of_nat take_bit_nat_eq_self)
  then have "unat (timeout c) \<le> unat (irq_timeout (state ?c1))"
    using assms(4) by (cases "n = 0") (simp_all add: v)
  then have "lc_did_timeout ?c1" using en(3) by (simp add: lc_did_timeout_def word_le_nat_alt)
  with en have "lc_on_timer K ?c1 h = lc_reset K ?c1 h" by (simp add: lc_on_timer_def)
  with lc_reset_wf[OF wf, of K h] show ?thesis by auto
qed

text \<open>The instance: timeout 3, a fresh connection (activity flag clear), three ticks.\<close>

theorem silence_timeout_forces_reset_witness:
  "wf_conn (ex_conn 2) \<and> timeout (ex_conn 2) = 3 \<and>
   irq_timeout (state ((lc_on_vblank ^^ 3) (ex_conn 2))) = 3 \<and>
   lc_on_timer ex_K ((lc_on_vblank ^^ 3) (ex_conn 2)) ex_master_ready =
     lc_reset ex_K ((lc_on_vblank ^^ 3) (ex_conn 2)) ex_master_ready"
proof -
  have w: "wf_conn (ex_conn 2)"
    using ex_conn_wf[where bs=2 and t=3 and r=5] by (simp add: ex_conn_def)
  have p: "is_enabled (ex_conn 2)" "\<not> is_locked (state (ex_conn 2))"
    "unat (timeout (ex_conn 2)) \<le> unat (irq_timeout (state (ex_conn 2)))
        + (3 - (if irq_flag (state (ex_conn 2)) then 1 else 0))"
    "unat (irq_timeout (state (ex_conn 2))) + 3 < 2 ^ 32"
    by (simp_all add: ex_conn_def)
  have t: "irq_timeout (state ((lc_on_vblank ^^ 3) (ex_conn 2))) = 3"
    by (simp add: lc_on_vblank_counted[OF p(1,2)]) (simp add: ex_conn_def)
  from silence_timeout_forces_reset[OF w p, of ex_K ex_master_ready] w t show ?thesis
    by (simp add: ex_conn_def)
qed

text \<open>
  Claim C5 as stated fails: with silence timeout 3, three tick reactions right
  after a successful exchange leave the silence counter at 2, and the next pace
  reaction does not reset: the player count stays 2 and the master starts a
  transfer.
\<close>

theorem timeout_ticks_after_exchange_do_not_reset:
  "\<exists>c h c' h'. lc_on_serial ex_K (ex_conn 2) (ex_exchange 0 [0x11, 0x22]) = Some (c, h) \<and>
     is_enabled c \<and> \<not> is_locked (state c) \<and> timeout c = 3 \<and>
     irq_timeout (state ((lc_on_vblank ^^ 3) c)) = 2 \<and>
     lc_on_timer ex_K ((lc_on_vblank ^^ 3) c) ex_master_ready = Some (c', h') \<and>
     player_count (state c') = 2 \<and> lc_is_sending c' h' \<and>
     lc_on_timer ex_K ((lc_on_vblank ^^ 3) c) ex_master_ready \<noteq>
       lc_reset ex_K ((lc_on_vblank ^^ 3) c) ex_master_ready"
proof -
  let ?c = "(ex_conn 2)\<lparr>state := (state (ex_conn 2))
     \<lparr>player_count := 2,
      incoming_messages := [ex_queue 2, \<lparr>buf = [0x22, 7], cap = 2, len = 1, qi = 0, qj = 1\<rparr>,
                            ex_queue 2, ex_queue 2],
      timeouts := [0, 0, LINK_REMOTE_TIMEOUT_OFFLINE, LINK_REMOTE_TIMEOUT_OFFLINE],
      irq_flag := True\<rparr>\<rparr>"
  let ?c3 = "?c\<lparr>state := (state ?c)\<lparr>irq_timeout := 2, irq_flag := False\<rparr>\<rparr>"
  let ?h' = "setBitHigh (ex_master_ready\<lparr>REG_SIOMLT_SEND := LINK_NO_DATA\<rparr>) LINK_BIT_START"
  have p: "is_enabled ?c" "\<not> is_locked (state ?c)" "timeout ?c = 3"
    by (simp_all add: ex_conn_def)
  have v: "(lc_on_vblank ^^ 3) ?c = ?c3"
    by (simp add: lc_on_vblank_counted[OF p(1,2)]) (simp add: ex_conn_def)
  have hwf: "lc_is_master ?c3 ex_master_ready" "lc_is_ready ?c3 ex_master_ready"
    "\<not> lc_is_sending ?c3 ex_master_ready"
    "lc_is_master ?c3 (ex_master_ready\<lparr>REG_SIOMLT_SEND := LINK_NO_DATA\<rparr>)"
    by (simp_all add: lc_is_master_def lc_is_ready_def lc_is_sending_def isBitHigh_bit
        ex_master_ready_def ex_hw_def bit_exp_iff possible_bit_word)
  have t: "lc_on_timer ex_K ?c3 ex_master_ready = Some (?c3, ?h')"
    using hwf
    by (simp add: lc_on_timer_def lc_did_timeout_def lc_send_pending_data_def lc_transfer_def
        Let_def ex_conn_def LINK_QUEUE_POP_def u16q_empty_def ex_queue_def word_le_nat_alt)
  have s: "lc_is_sending ?c3 ?h'"
    by (simp add: lc_is_sending_def isBitHigh_bit setBitHigh_def bit_LINK_SET_HIGH)
  have wf: "wf_conn ?c3"
  proof -
    have "wf_queue \<lparr>buf = [0x22, 7], cap = 2, len = 1, qi = 0, qj = 1\<rparr>"
      by (simp add: wf_queue_def)
    then show ?thesis by (simp add: wf_conn_def ex_conn_def ex_queue_wf)
  qed
  from lc_reset_wf[OF wf, of ex_K ex_master_ready] obtain cr hr where
    r: "lc_reset_state ?c3 = Some cr" "lc_reset ex_K ?c3 ex_master_ready = Some (cr, hr)" by blast
  from lc_reset_state_post(1)[OF wf r(1)] have "player_count (state cr) = 0" .
  then have "cr \<noteq> ?c3" by auto
  with r(2) t have ne: "lc_on_timer ex_K ?c3 ex_master_ready \<noteq> lc_reset ex_K ?c3 ex_master_ready"
    by simp
  have i: "irq_timeout (state ?c3) = 2" "player_count (state ?c3) = 2" by simp_all
  from ex_serial_1 p v t s ne i show ?thesis
    by (intro exI[of _ ?c] exI[of _ "ex_exchange 0 [0x11, 0x22]"] exI[of _ ?c3] exI[of _ ?h'])
      (simp only: simp_thms)
qed

subsection \<open>Sending a reserved value\<close>

text \<open>
  Claim C6. For a value \<open>v\<close> that is one of the two reserved values (\<open>0x0000\<close>,
  \<open>0xFFFF\<close>), \<open>lc_send\<close> returns the connection it was given: nothing at all
  changes. Consequently no call of \<open>lc_send\<close>, with any value, puts a reserved
  value into the outgoing queue: if the queue held none before the call, it
  holds none after it.
\<close>

theorem lc_send_reserved_is_noop:
  "(v = LINK_NO_DATA \<or> v = LINK_DISCONNECTED \<longrightarrow> lc_send c v = Some c) \<and>
   (wf_queue (outgoing_messages (state c)) \<and> sentinel_free (outgoing_messages (state c)) \<and>
    lc_send c v = Some c' \<longrightarrow> sentinel_free (outgoing_messages (state c')))"
proof (intro conjI impI)
  assume "v = LINK_NO_DATA \<or> v = LINK_DISCONNECTED"
  then show "lc_send c v = Some c" by (auto simp: lc_send_def)
next
  assume a: "wf_queue (outgoing_messages (state c)) \<and> sentinel_free (outgoing_messages (state c)) \<and>
    lc_send c v = Some c'"
  show "sentinel_free (outgoing_messages (state c'))"
  proof (cases "v = LINK_DISCONNECTED \<or> v = LINK_NO_DATA")
    case True
    with a show ?thesis by (auto simp: lc_send_def)
  next
    case False
    with a obtain q where push: "u16q_push (outgoing_messages (state c)) v = Some q"
      and c': "outgoing_messages (state c') = q"
      by (auto simp: lc_send_def Let_def split: bind_splits)
    from a sentinel_free_push[OF _ push] False show ?thesis by (simp add: c')
  qed
qed

text \<open>The instance: sending \<open>0\<close>, \<open>0xFFFF\<close> and \<open>5\<close> on a fresh connection of capacity 2.\<close>

theorem lc_send_reserved_is_noop_witness:
  "lc_send (ex_conn 2) LINK_NO_DATA = Some (ex_conn 2) \<and>
   lc_send (ex_conn 2) LINK_DISCONNECTED = Some (ex_conn 2) \<and>
   (\<exists>c'. lc_send (ex_conn 2) 5 = Some c' \<and> u16q_items (outgoing_messages (state c')) = [5] \<and>
      sentinel_free (outgoing_messages (state c')))"
proof -
  let ?c' = "(ex_conn 2)\<lparr>state := (state (ex_conn 2))\<lparr>outgoing_messages :=
     \<lparr>buf = [5, 7], cap = 2, len = 1, qi = 0, qj = 1\<rparr>\<rparr>\<rparr>"
  have s: "lc_send (ex_conn 2) 5 = Some ?c'"
    by (simp add: lc_send_def ex_conn_def ex_queue_2 u16q_push_def Let_def word_le_nat_alt)
  have w: "wf_queue (outgoing_messages (state (ex_conn 2)))"
    "sentinel_free (outgoing_messages (state (ex_conn 2)))"
    by (simp_all add: ex_conn_def ex_queue_wf ex_queue_items sentinel_free_Nil)
  have i: "u16q_items (outgoing_messages (state ?c')) = [5]"
    by (simp add: u16q_items_def ring_def)
  from lc_send_reserved_is_noop[of LINK_NO_DATA "ex_conn 2"]
    lc_send_reserved_is_noop[of LINK_DISCONNECTED "ex_conn 2"]
    lc_send_reserved_is_noop[of 5 "ex_conn 2" ?c'] s w i
  show ?thesis by simp
qed

subsection \<open>Reserved values are never delivered\<close>

text \<open>
  Claim C7. In every reachable connection no incoming queue holds \<open>0x0000\<close> or
  \<open>0xFFFF\<close>; hence a call of \<open>lc_read_message\<close> that returns never returns
  \<open>0xFFFF\<close>, and returns \<open>0x0000\<close> only when the queue it read is empty.
\<close>

theorem incoming_never_holds_sentinels:
  assumes "reachable K cfg c"
  shows "(\<forall>q \<in> set (incoming_messages (state c)).
            LINK_NO_DATA \<notin> set (u16q_items q) \<and> LINK_DISCONNECTED \<notin> set (u16q_items q)) \<and>
         (\<forall>p v c'. lc_read_message c p = Some (v, c') \<longrightarrow>
            v \<noteq> LINK_DISCONNECTED \<and>
            (v = LINK_NO_DATA \<longrightarrow> u16q_empty (incoming_messages (state c) ! unat p)))"
proof -
  from reachable_inv[OF assms] have inv: "conn_inv cfg c" .
  then have "\<forall>q \<in> set (incoming_messages (state c)). sentinel_free q"
    by (simp add: conn_inv_def)
  then show ?thesis
    using lc_read_message_inv(2,3)[OF inv] by (auto simp: sentinel_free_def)
qed

text \<open>The instance: the connection after one exchange in which slot 1 sent \<open>0x22\<close>.\<close>

theorem incoming_never_holds_sentinels_witness:
  "\<exists>c1 h1 c2. lc_on_serial ex_K (ex_conn 2) (ex_exchange 0 [0x11, 0x22]) = Some (c1, h1) \<and>
     reachable ex_K (ex_settings 2) c1 \<and>
     u16q_items (incoming_messages (state c1) ! 1) = [0x22] \<and>
     lc_read_message c1 1 = Some (0x22, c2) \<and>
     LINK_NO_DATA \<notin> set (u16q_items (incoming_messages (state c1) ! 1)) \<and>
     LINK_DISCONNECTED \<notin> set (u16q_items (incoming_messages (state c1) ! 1))"
proof -
  let ?c1 = "(ex_conn 2)\<lparr>state := (state (ex_conn 2))
     \<lparr>player_count := 2,
      incoming_messages := [ex_queue 2, \<lparr>buf = [0x22, 7], cap = 2, len = 1, qi = 0, qj = 1\<rparr>,
                            ex_queue 2, ex_queue 2],
      timeouts := [0, 0, LINK_REMOTE_TIMEOUT_OFFLINE, LINK_REMOTE_TIMEOUT_OFFLINE],
      irq_flag := True\<rparr>\<rparr>"
  have "reachable ex_K (ex_settings 2) (ex_conn 2)"
    using ex_conn_reachable[where bs=2 and t=3 and r=5] by (simp add: ex_settings_def ex_conn_def)
  then have r: "reachable ex_K (ex_settings 2) ?c1"
    by (rule r_serial[OF _ ex_serial_1])
  have i: "u16q_items (incoming_messages (state ?c1) ! 1) = [0x22]"
    by (simp add: u16q_items_def ring_def)
  have m: "lc_read_message ?c1 1 = Some (0x22,
      ?c1\<lparr>state := (state ?c1)\<lparr>incoming_messages :=
        [ex_queue 2, \<lparr>buf = [0x22, 7], cap = 2, len = 0, qi = 1, qj = 1\<rparr>, ex_queue 2, ex_queue 2]\<rparr>\<rparr>)"
    by (simp add: lc_read_message_def linkstate_read_message_def LINK_QUEUE_POP_def u16q_empty_def
        u16q_front_def u16q_pop_def Let_def ex_conn_def word_le_nat_alt)
  from incoming_never_holds_sentinels[OF r] ex_serial_1 r i m show ?thesis
    by (intro exI[of _ ?c1] exI[of _ "ex_exchange 0 [0x11, 0x22]"] exI conjI) simp_all
qed

subsection \<open>The pace reaction of the master\<close>

text \<open>
  Claim C8. On an enabled, unguarded connection below the silence timeout,
  whose hardware reports master, ready and no transfer in flight, the pace
  reaction changes only the outgoing queue and starts a transfer (start bit
  set). If the outgoing queue holds exactly one value, that value is written
  to the transmit register and the queue is empty afterwards; if it is empty,
  \<open>LINK_NO_DATA\<close> is written and the queue is unchanged.
\<close>

theorem master_pace_transmits_head:
  assumes "wf_conn c" "is_enabled c" "\<not> is_locked (state c)" "\<not> lc_did_timeout c"
    "lc_is_master c h" "lc_is_ready c h" "\<not> lc_is_sending c h"
  shows "\<exists>c' h' q'. lc_on_timer K c h = Some (c', h') \<and>
     c' = c\<lparr>state := (state c)\<lparr>outgoing_messages := q'\<rparr>\<rparr> \<and>
     lc_is_sending c' h' \<and>
     (\<forall>v. u16q_items (outgoing_messages (state c)) = [v] \<longrightarrow>
        REG_SIOMLT_SEND h' = v \<and> u16q_empty q' \<and> u16q_items q' = []) \<and>
     (u16q_items (outgoing_messages (state c)) = [] \<longrightarrow>
        REG_SIOMLT_SEND h' = LINK_NO_DATA \<and> q' = outgoing_messages (state c))"
proof -
  let ?q = "outgoing_messages (state c)"
  from assms(1) have wf: "wf_queue ?q" by (simp add: wf_conn_def)
  from LINK_QUEUE_POP_items[OF wf] obtain q' where
    pop: "LINK_QUEUE_POP ?q = Some (case u16q_items ?q of [] \<Rightarrow> LINK_NO_DATA | v # vs \<Rightarrow> v, q')"
    and q': "wf_queue q'" "u16q_items q' = tl (u16q_items ?q)" "u16q_empty ?q \<longrightarrow> q' = ?q"
    by blast
  let ?v = "case u16q_items ?q of [] \<Rightarrow> LINK_NO_DATA | v # vs \<Rightarrow> v"
  let ?c' = "c\<lparr>state := (state c)\<lparr>outgoing_messages := q'\<rparr>\<rparr>"
  let ?h' = "setBitHigh (h\<lparr>REG_SIOMLT_SEND := ?v\<rparr>) LINK_BIT_START"
  have m: "lc_is_master ?c' (h\<lparr>REG_SIOMLT_SEND := ?v\<rparr>)"
    using assms(5) by (simp add: lc_is_master_def isBitHigh_def)
  have t: "lc_on_timer K c h = Some (?c', ?h')"
    using assms pop m
    by (simp add: lc_on_timer_def lc_send_pending_data_def lc_transfer_def Let_def)
  have s: "lc_is_sending ?c' ?h'"
    by (simp add: lc_is_sending_def isBitHigh_bit setBitHigh_def bit_LINK_SET_HIGH)
  have v: "REG_SIOMLT_SEND ?h' = ?v" by (simp add: setBitHigh_def)
  have one: "?v = x \<and> u16q_empty q' \<and> u16q_items q' = []" if "u16q_items ?q = [x]" for x
    using that q'(2) u16q_empty_items[OF q'(1)] by simp
  have none: "?v = LINK_NO_DATA \<and> q' = ?q" if "u16q_items ?q = []"
    using that q'(3) u16q_empty_items[OF wf] by simp
  from t s v one none show ?thesis by (intro exI[of _ ?c'] exI[of _ ?h'] exI[of _ q']) auto
qed

text \<open>The instance: one value sent on a fresh connection, then a pace reaction of the master.\<close>

theorem master_pace_transmits_head_witness:
  "\<exists>c c' h'. lc_send (ex_conn 2) 5 = Some c \<and>
     u16q_items (outgoing_messages (state c)) = [5] \<and>
     lc_on_timer ex_K c ex_master_ready = Some (c', h') \<and>
     REG_SIOMLT_SEND h' = 5 \<and> lc_is_sending c' h' \<and>
     u16q_empty (outgoing_messages (state c'))"
proof -
  let ?c = "(ex_conn 2)\<lparr>state := (state (ex_conn 2))\<lparr>outgoing_messages :=
     \<lparr>buf = [5, 7], cap = 2, len = 1, qi = 0, qj = 1\<rparr>\<rparr>\<rparr>"
  have s: "lc_send (ex_conn 2) 5 = Some ?c"
    by (simp add: lc_send_def ex_conn_def ex_queue_2 u16q_push_def Let_def word_le_nat_alt)
  have i: "u16q_items (outgoing_messages (state ?c)) = [5]"
    by (simp add: u16q_items_def ring_def)
  have "wf_queue \<lparr>buf = [5, 7], cap = 2, len = 1, qi = 0, qj = 1\<rparr>"
    by (simp add: wf_queue_def)
  then have w: "wf_conn ?c"
    by (simp add: wf_conn_def ex_conn_def ex_queue_wf)
  have p: "is_enabled ?c" "\<not> is_locked (state ?c)" "\<not> lc_did_timeout ?c"
    "lc_is_master ?c ex_master_ready" "lc_is_ready ?c ex_master_ready"
    "\<not> lc_is_sending ?c ex_master_ready"
    by (simp_all add: ex_conn_def lc_did_timeout_def lc_is_master_def lc_is_ready_def
        lc_is_sending_def isBitHigh_bit ex_master_ready_def ex_hw_def word_le_nat_alt
        bit_exp_iff possible_bit_word)
  from master_pace_transmits_head[OF w p, of ex_K] s i show ?thesis by auto
qed

subsection \<open>Sending as many values as the queue has cells\<close>

text \<open>
  Claim C9. Take a connection whose outgoing queue has capacity
  \<open>buffer_size\<close> and is empty, with \<open>len = 0\<close>. After exactly \<open>buffer_size\<close> calls
  of \<open>lc_send\<close> with values that are not reserved, and no pop in between, the
  emptiness test (read cursor equal to write cursor) says the queue is empty
  although \<open>len\<close> equals \<open>buffer_size\<close>. A pop then returns \<open>LINK_NO_DATA\<close> and
  leaves the queue as it is, and \<open>lc_send_pending_data\<close> transmits
  \<open>LINK_NO_DATA\<close>. None of the values sent is delivered later either: whatever
  pushes and pops follow, the pops deliver exactly what they would have
  delivered had the \<open>buffer_size\<close> values never been sent.
\<close>

theorem capacity_sends_leave_queue_empty:
  assumes "wf_queue (outgoing_messages (state c))"
    and "u16q_empty (outgoing_messages (state c))"
    and "len (outgoing_messages (state c)) = 0"
    and "cap (outgoing_messages (state c)) = buffer_size c"
    and "length vs = unat (buffer_size c)"
    and "\<forall>v \<in> set vs. v \<noteq> LINK_NO_DATA \<and> v \<noteq> LINK_DISCONNECTED"
  shows "\<exists>c'. lc_send_all c vs = Some c' \<and>
     u16q_empty (outgoing_messages (state c')) \<and>
     len (outgoing_messages (state c')) = buffer_size c \<and>
     LINK_QUEUE_POP (outgoing_messages (state c')) =
       Some (LINK_NO_DATA, outgoing_messages (state c')) \<and>
     u16q_items (outgoing_messages (state c')) = [] \<and>
     (\<forall>h. \<exists>c2 h2. lc_send_pending_data c' h = Some (c2, h2) \<and>
        REG_SIOMLT_SEND h2 = LINK_NO_DATA) \<and>
     (\<forall>ops. map_option fst (run_ops (outgoing_messages (state c')) ops) =
            map_option fst (run_ops (outgoing_messages (state c)) ops))"
proof (cases "buffer_size c = 0")
  case True
  with assms(5) have "vs = []" by simp
  with assms True lc_send_pending_data_empty[OF assms(2)] show ?thesis
    by (simp add: LINK_QUEUE_POP_empty u16q_empty_items[symmetric])
next
  case False
  let ?q = "outgoing_messages (state c)"
  from False assms(4) have nz: "cap ?q \<noteq> 0" by simp
  from pushes_cursor[OF assms(1) nz, of vs] obtain q' where
    r: "run_ops ?q (map Push vs) = Some ([], q')" "wf_queue q'" "cap q' = cap ?q" "qi q' = qi ?q"
      "unat (qj q') = (unat (qj ?q) + length vs) mod unat (cap ?q)"
      "len q' = len ?q + of_nat (length vs)"
    by blast
  from assms(1) nz have "unat (qj ?q) < unat (cap ?q)" by (auto simp: wf_queue_def word_less_nat_alt)
  with r(5) assms(4,5) have j: "qj q' = qj ?q" by (simp add: word_unat_eq_iff)
  have e: "u16q_empty q'" using assms(2) r(4) j by (simp add: u16q_empty_def)
  have l: "len q' = buffer_size c" using r(6) assms(3,5) by simp
  have i: "u16q_items q' = []" "u16q_items ?q = []"
    using e assms(2) u16q_empty_items[OF r(2)] u16q_empty_items[OF assms(1)] by simp_all
  have t: "map_option fst (run_ops q' ops) = map_option fst (run_ops ?q ops)" for ops
    using r(2) assms(1) r(3,4) j i by (intro run_ops_same_view) simp_all
  from lc_send_all_pushes[OF assms(6) r(1)] obtain c' where
    c': "lc_send_all c vs = Some c'" "outgoing_messages (state c') = q'" by blast
  have "u16q_empty (outgoing_messages (state c'))" using e c'(2) by simp
  from lc_send_pending_data_empty[OF this]
  have "\<forall>h. \<exists>c2 h2. lc_send_pending_data c' h = Some (c2, h2) \<and> REG_SIOMLT_SEND h2 = LINK_NO_DATA"
    by blast
  with c' e l i t LINK_QUEUE_POP_empty[OF e] show ?thesis by auto
qed

text \<open>The instance: capacity 2, values 1 and 2.\<close>

theorem capacity_sends_leave_queue_empty_witness:
  "\<exists>c'. lc_send_all (ex_conn 2) [1, 2] = Some c' \<and>
     buf (outgoing_messages (state c')) = [1, 2] \<and>
     u16q_empty (outgoing_messages (state c')) \<and>
     len (outgoing_messages (state c')) = 2 \<and>
     LINK_QUEUE_POP (outgoing_messages (state c')) =
       Some (LINK_NO_DATA, outgoing_messages (state c'))"
proof -
  have s: "lc_send_all (ex_conn 2) [1, 2] =
     Some ((ex_conn 2)\<lparr>state := (state (ex_conn 2))\<lparr>outgoing_messages :=
       \<lparr>buf = [1, 2], cap = 2, len = 2, qi = 0, qj = 0\<rparr>\<rparr>\<rparr>)"
    by (simp add: lc_send_def ex_conn_def ex_queue_2 u16q_push_def Let_def word_le_nat_alt)
  have p: "wf_queue (outgoing_messages (state (ex_conn 2)))"
    "u16q_empty (outgoing_messages (state (ex_conn 2)))"
    "len (outgoing_messages (state (ex_conn 2))) = 0"
    "cap (outgoing_messages (state (ex_conn 2))) = buffer_size (ex_conn 2)"
    "length [1, 2 :: u16] = unat (buffer_size (ex_conn 2))"
    "\<forall>v \<in> set [1, 2 :: u16]. v \<noteq> LINK_NO_DATA \<and> v \<noteq> LINK_DISCONNECTED"
    by (simp_all add: ex_conn_def ex_queue_wf) (simp_all add: ex_queue_def u16q_empty_def)
  from capacity_sends_leave_queue_empty[OF p] s show ?thesis
    by (auto simp: ex_conn_def)
qed

subsection \<open>A silence timeout of zero\<close>

text \<open>
  Claim C10. When the connection was built with silence timeout 0, every
  pace reaction that finds it enabled and unguarded is a full reset (the
  unsigned silence counter is always at least 0): the reset returns, and it
  neither pops the outgoing queue into the transmit register nor sets the start
  bit, so the transmit branch of the master is never reached.
\<close>

theorem zero_timeout_pace_always_resets:
  assumes "reachable K cfg c" "cfg_timeout cfg = 0" "is_enabled c" "\<not> is_locked (state c)"
  shows "lc_on_timer K c h = lc_reset K c h \<and>
         (\<exists>c' h'. lc_reset K c h = Some (c', h') \<and> lc_reset_state c = Some c' \<and>
            \<not> lc_is_sending c' h' \<and> REG_SIOMLT_SEND h' = LINK_NO_DATA)"
proof -
  from reachable_inv[OF assms(1)] have inv: "conn_inv cfg c" .
  with assms(2) have "timeout c = 0" by (simp add: conn_inv_def)
  then have "lc_did_timeout c" by (simp add: lc_did_timeout_def)
  with assms(3,4) have "lc_on_timer K c h = lc_reset K c h" by (simp add: lc_on_timer_def)
  with lc_reset_wf[OF conn_inv_wf[OF inv], of K h] show ?thesis by auto
qed

text \<open>The instance: the activated example connection built with timeout 0.\<close>

theorem zero_timeout_pace_always_resets_witness:
  "reachable ex_K ((ex_settings 2)\<lparr>cfg_timeout := 0, cfg_remote_timeout := 5\<rparr>)
     ((ex_conn 2)\<lparr>timeout := 0, remote_timeout := 5\<rparr>) \<and>
   lc_on_timer ex_K ((ex_conn 2)\<lparr>timeout := 0, remote_timeout := 5\<rparr>) ex_hw =
     lc_reset ex_K ((ex_conn 2)\<lparr>timeout := 0, remote_timeout := 5\<rparr>) ex_hw"
  using zero_timeout_pace_always_resets[OF ex_conn_reachable[where bs=2 and t=0 and r=5], of ex_hw]
    ex_conn_reachable[where bs=2 and t=0 and r=5]
  by (simp add: ex_settings_def ex_conn_def)

end
